theory Spec2Isabelle
  imports Main "HOL-Library.Multiset" "HOL-Library.Sublist"
begin

section \<open>Python strings and paths\<close>

text \<open>
  Strings are lists of characters. The model covers ASCII text: \<open>str.lower\<close>,
  \<open>str.strip\<close>, \<open>int\<close> and the regular-expression class \<open>\d\<close> are modelled on
  their ASCII behaviour. Paths follow \<open>posixpath\<close> (\<open>os.path.sep\<close> is the slash). Where
  the behaviour depends on the version of the interpreter, the model follows CPython 3.11
  and later.
\<close>

definition lower_char :: "char \<Rightarrow> char" where
  "lower_char c =
     (let n = (of_char c :: nat) in if 65 \<le> n \<and> n \<le> 90 then char_of (n + 32) else c)"

definition str_lower :: "string \<Rightarrow> string" where
  "str_lower s = map lower_char s"

text \<open>\<open>s.split(sep)\<close> for a one-character separator: never the empty list.\<close>

fun split_on :: "char \<Rightarrow> string \<Rightarrow> string list" where
  "split_on sep [] = [[]]"
| "split_on sep (c # cs) =
     (if c = sep then [] # split_on sep cs
      else (case split_on sep cs of
              [] \<Rightarrow> [[c]]
            | p # ps \<Rightarrow> (c # p) # ps))"

text \<open>\<open>s.rfind(c)\<close>: the highest index of \<open>c\<close>, or \<open>-1\<close>.\<close>

fun rfind_from :: "char \<Rightarrow> string \<Rightarrow> int \<Rightarrow> int \<Rightarrow> int" where
  "rfind_from c [] i r = r"
| "rfind_from c (x # xs) i r = rfind_from c xs (i + 1) (if x = c then i else r)"

definition rfind :: "string \<Rightarrow> char \<Rightarrow> int" where
  "rfind s c = rfind_from c s 0 (- 1)"

text \<open>
  \<open>os.path.splitext\<close> (\<open>genericpath._splitext\<close> with separator \<open>/\<close> and no alternative
  separator): the extension starts at the last dot of the path, if that dot lies after the
  last slash and some character between them is not a dot; the loop over
  \<open>p[sepIndex+1 : dotIndex]\<close> that looks for such a character is \<open>list_ex\<close> on the slice.
\<close>

definition splitext :: "string \<Rightarrow> string \<times> string" where
  "splitext p =
     (let sepIndex = rfind p (CHR ''/'');
          dotIndex = rfind p (CHR ''.'')
      in if dotIndex > sepIndex \<and>
            list_ex (\<lambda>c. c \<noteq> CHR ''.'')
              (take (nat (dotIndex - (sepIndex + 1))) (drop (nat (sepIndex + 1)) p))
         then (take (nat dotIndex) p, drop (nat dotIndex) p)
         else (p, []))"

section \<open>Messages (agents/base.py)\<close>

datatype message_type = FILE_ANALYSIS | REVIEW_REQUEST | REVIEW | REPORT | ERROR

text \<open>The dictionary returned by \<open>LanguageExpert._review_code\<close>.\<close>

record review_dict =
  review_text :: string
  best_practices_violations :: "string list"
  suggestions :: "string list"

text \<open>
  The \<open>content\<close> dictionary of a message. The program reads and writes a fixed set of keys;
  each key is a field, \<open>None\<close> when the key is absent (what \<open>content.get(key)\<close> returns).
  \<open>files_by_language\<close> is a dictionary in insertion order: an association list with
  distinct keys.
\<close>

record content =
  files :: "string list option"
  pr_number :: "int option"
  file_path :: "string option"
  file_content :: "string option"
  error :: "string option"
  files_by_language :: "(string \<times> string list) list option"
  review :: "review_dict option"
  report :: "string option"

definition empty_content :: content where
  "empty_content =
     \<lparr>files = None, pr_number = None, file_path = None, file_content = None, error = None,
      files_by_language = None, review = None, report = None\<rparr>"

record message =
  mtype :: message_type
  content :: content
  source :: string

text \<open>
  \<open>MessageType\<close> mixes \<open>str\<close> into \<open>Enum\<close>; an f-string shows such a member as
  the name of the class and the name of the member (CPython 3.11 and later; earlier versions
  show the value).
\<close>

fun format_message_type :: "message_type \<Rightarrow> string" where
  "format_message_type FILE_ANALYSIS = ''MessageType.FILE_ANALYSIS''"
| "format_message_type REVIEW_REQUEST = ''MessageType.REVIEW_REQUEST''"
| "format_message_type REVIEW = ''MessageType.REVIEW''"
| "format_message_type REPORT = ''MessageType.REPORT''"
| "format_message_type ERROR = ''MessageType.ERROR''"

definition error_message :: "string \<Rightarrow> string \<Rightarrow> message" where
  "error_message txt src =
     \<lparr>mtype = ERROR, content = empty_content\<lparr>error := Some txt\<rparr>, source = src\<rparr>"

section \<open>File Classifier (agents/file_analyzer.py)\<close>

definition excluded_extensions :: "string list" where
  "excluded_extensions =
     [''.png'', ''.jpg'', ''.jpeg'', ''.gif'', ''.svg'', ''.ico'',
      ''.ttf'', ''.woff'', ''.woff2'', ''.eot'', ''.pdf'',
      ''.mp3'', ''.mp4'', ''.wav'', ''.avi'', ''.mov'',
      ''.zip'', ''.tar'', ''.gz'', ''.rar'',
      ''.pyc'', ''.pyo'', ''.pyd'',
      ''.map'', ''.min.js'', ''.min.css'']"

definition excluded_directories :: "string list" where
  "excluded_directories =
     [''node_modules'', ''dist'', ''build'', ''assets'',
      ''static'', ''public'', ''vendor'', ''.git'']"

definition is_relevant_file :: "string \<Rightarrow> bool" where
  "is_relevant_file p =
     (let ext = str_lower (snd (splitext p))
      in if ext \<in> set excluded_extensions then False
         else \<not> list_ex (\<lambda>part. str_lower part \<in> set excluded_directories)
                  (split_on (CHR ''/'') p))"

definition get_file_extension :: "string \<Rightarrow> string" where
  "get_file_extension p = str_lower (snd (splitext p))"

text \<open>
  \<open>if ext not in d: d[ext] = []\<close> followed by \<open>d[ext].append(file)\<close>, on a dictionary that
  keeps insertion order.
\<close>

fun dict_append :: "(string \<times> string list) list \<Rightarrow> string \<Rightarrow> string \<Rightarrow> (string \<times> string list) list" where
  "dict_append [] ext file = [(ext, [file])]"
| "dict_append ((k, v) # kvs) ext file =
     (if k = ext then (k, v @ [file]) # kvs else (k, v) # dict_append kvs ext file)"

fun categorize :: "(string \<times> string list) list \<Rightarrow> string list \<Rightarrow> (string \<times> string list) list" where
  "categorize d [] = d"
| "categorize d (file # rest) = categorize (dict_append d (get_file_extension file) file) rest"

definition FileAnalyzer_process_message :: "message \<Rightarrow> message list" where
  "FileAnalyzer_process_message m =
     (if mtype m = FILE_ANALYSIS then
        (let fs = (case files (content m) of None \<Rightarrow> [] | Some fs \<Rightarrow> fs);
             pr = pr_number (content m)
         in if fs = [] then [error_message ''No files to analyze'' ''file_analyzer'']
            else
              (let relevant_files = filter is_relevant_file fs
               in if relevant_files = []
                  then [error_message ''No relevant files found'' ''file_analyzer'']
                  else [\<lparr>mtype = FILE_ANALYSIS,
                         content = empty_content
                           \<lparr>files_by_language := Some (categorize [] relevant_files),
                            pr_number := pr\<rparr>,
                         source = ''file_analyzer''\<rparr>]))
      else [error_message (''Unsupported message type: '' @ format_message_type (mtype m))
              ''file_analyzer''])"

text \<open>The order in which the elements of a list are first met.\<close>

definition first_seen :: "'a list \<Rightarrow> 'a list" where
  "first_seen xs = rev (remdups (rev xs))"


section \<open>Exceptions\<close>

text \<open>
  A raised exception is a value. \<open>Raised\<close> stands for an exception of a library outside the
  repository (the source-control client, the model client, the environment), with the text
  that \<open>str(e)\<close> gives.
\<close>

datatype exn = ValueError string | IndexError string | Raised string

fun exn_str :: "exn \<Rightarrow> string" where
  "exn_str (ValueError txt) = txt"
| "exn_str (IndexError txt) = txt"
| "exn_str (Raised txt) = txt"

section \<open>URL parsing (utils/github_utils.py)\<close>

definition is_digit :: "char \<Rightarrow> bool" where
  "is_digit c = (let n = (of_char c :: nat) in 48 \<le> n \<and> n \<le> 57)"

definition digit_value :: "char \<Rightarrow> int" where
  "digit_value c = int (of_char c) - 48"

definition int_of_digits :: "string \<Rightarrow> int" where
  "int_of_digits ds = foldl (\<lambda>a c. 10 * a + digit_value c) 0 ds"

text \<open>\<open>str(n)\<close> for a natural number.\<close>

function show_nat :: "nat \<Rightarrow> string" where
  "show_nat n =
     (if n < 10 then [char_of (48 + n)]
      else show_nat (n div 10) @ [char_of (48 + n mod 10)])"
  by pat_completeness auto
termination
  by (relation "measure id") auto

text \<open>
  The conversion of a decimal string to an integer refuses more than 4300 digits (the default
  of \<open>sys.get_int_max_str_digits()\<close>) with a \<open>ValueError\<close>; every digit counts, also a
  leading zero.
\<close>

definition max_str_digits :: nat where
  "max_str_digits = 4300"

definition digits_limit_error :: "nat \<Rightarrow> exn" where
  "digits_limit_error k =
     ValueError (''Exceeds the limit ('' @ show_nat max_str_digits @
                 '' digits) for integer string conversion: value has '' @ show_nat k @
                 '' digits; use sys.set_int_max_str_digits() to increase the limit'')"

text \<open>\<open>int(s)\<close> on a non-empty string of decimal digits.\<close>

definition int_of_decimal :: "string \<Rightarrow> exn + int" where
  "int_of_decimal ds =
     (if length ds > max_str_digits then Inl (digits_limit_error (length ds))
      else Inr (int_of_digits ds))"

text \<open>
  A backtracking matcher for the pattern
  \<^verbatim>\<open>github\.com/([^/]+)/([^/]+)/pull/(\d+)\<close>.
  \<open>match_lit\<close> consumes a literal and returns the rest of the text. \<open>match_plus P k\<close> is
  a greedy \<open>+\<close> over the character class \<open>P\<close>: it tries the longest run first and gives
  characters back until the continuation \<open>k\<close>, which receives the run and the rest, succeeds.
\<close>

fun match_lit :: "string \<Rightarrow> string \<Rightarrow> string option" where
  "match_lit [] s = Some s"
| "match_lit (c # cs) [] = None"
| "match_lit (c # cs) (x # xs) = (if c = x then match_lit cs xs else None)"

fun match_star :: "(char \<Rightarrow> bool) \<Rightarrow> (string \<Rightarrow> string \<Rightarrow> 'a option) \<Rightarrow> string \<Rightarrow> string \<Rightarrow> 'a option" where
  "match_star P k acc [] = k acc []"
| "match_star P k acc (c # cs) =
     (if P c
      then (case match_star P k (acc @ [c]) cs of
              Some r \<Rightarrow> Some r
            | None \<Rightarrow> k acc (c # cs))
      else k acc (c # cs))"

definition match_plus :: "(char \<Rightarrow> bool) \<Rightarrow> (string \<Rightarrow> string \<Rightarrow> 'a option) \<Rightarrow> string \<Rightarrow> 'a option" where
  "match_plus P k s =
     (case s of
        [] \<Rightarrow> None
      | c # cs \<Rightarrow> if P c then match_star P k [c] cs else None)"

text \<open>A match of the whole pattern at the start of the text: the three groups.\<close>

definition match_here :: "string \<Rightarrow> (string \<times> string \<times> string) option" where
  "match_here s =
     (case match_lit ''github.com/'' s of
        None \<Rightarrow> None
      | Some r1 \<Rightarrow>
          match_plus (\<lambda>c. c \<noteq> CHR ''/'')
            (\<lambda>owner r2.
               case match_lit ''/'' r2 of
                 None \<Rightarrow> None
               | Some r3 \<Rightarrow>
                   match_plus (\<lambda>c. c \<noteq> CHR ''/'')
                     (\<lambda>repo r4.
                        case match_lit ''/pull/'' r4 of
                          None \<Rightarrow> None
                        | Some r5 \<Rightarrow>
                            match_plus is_digit (\<lambda>num r6. Some (owner, repo, num)) r5)
                     r3)
            r1)"

text \<open>\<open>re.search\<close>: the match at the leftmost position that has one.\<close>

fun re_search :: "string \<Rightarrow> (string \<times> string \<times> string) option" where
  "re_search [] = match_here []"
| "re_search (c # cs) =
     (case match_here (c # cs) of
        Some g \<Rightarrow> Some g
      | None \<Rightarrow> re_search cs)"

definition extract_repo_info :: "string \<Rightarrow> exn + (string \<times> string \<times> int)" where
  "extract_repo_info pr_url =
     (case re_search pr_url of
        None \<Rightarrow> Inl (ValueError ''Invalid GitHub PR URL'')
      | Some (owner, repo, num) \<Rightarrow>
          (case int_of_decimal num of
             Inl e \<Rightarrow> Inl e
           | Inr k \<Rightarrow> Inr (owner, repo, k)))"

text \<open>
  The shape in the words of the specification: the text contains
  \<open>github.com/<owner>/<repo>/pull/<digits>\<close>, where owner and repository are non-empty and
  free of slashes and the number has at least one digit.
\<close>

definition contains_pr_shape :: "string \<Rightarrow> bool" where
  "contains_pr_shape s =
     (\<exists>pre owner repo num post.
        s = pre @ ''github.com/'' @ owner @ ''/'' @ repo @ ''/pull/'' @ num @ post \<and>
        owner \<noteq> [] \<and> CHR ''/'' \<notin> set owner \<and>
        repo \<noteq> [] \<and> CHR ''/'' \<notin> set repo \<and>
        num \<noteq> [] \<and> list_all is_digit num)"


section \<open>The environment of a run\<close>

text \<open>
  The model client, the source-control client and the Report Aggregator (whose module is not
  among the sources) are parameters: functions on a state \<open>'w\<close> of the outside world, which
  return an outcome and the next state. An outcome \<open>Inl e\<close> is the exception \<open>e\<close>.
  \<^item> \<open>openai_api_key\<close> is \<open>os.getenv("OPENAI_API_KEY")\<close>;
  \<^item> \<open>chat_completion system user\<close> is \<open>openai.ChatCompletion.create\<close> with the two
    messages, followed by \<open>response.choices[0].message.content\<close>;
  \<^item> \<open>get_pull repo n\<close> is \<open>github.get_repo(repo).get_pull(n)\<close> and \<open>get_files repo n\<close>
    the list of file names of \<open>pr.get_files()\<close>;
  \<^item> \<open>file_content_of repo n path\<close> is \<open>get_pr_file_content\<close>, which turns every
    exception into \<open>None\<close>;
  \<^item> \<open>report_process\<close> is \<open>ReportAnalyzer.process_message\<close>;
  \<^item> \<open>json_dumps_str\<close> is \<open>json.dumps\<close> on a string, and \<open>repr_str\<close> is the text by which
    the message of a \<open>ValueError\<close> of \<open>int\<close> shows a string (its \<open>repr\<close>, cut to 200
    characters).
\<close>

record 'w env =
  openai_api_key :: "string option"
  chat_completion :: "string \<Rightarrow> string \<Rightarrow> 'w \<Rightarrow> (exn + string) \<times> 'w"
  get_pull :: "string \<Rightarrow> int \<Rightarrow> 'w \<Rightarrow> (exn + unit) \<times> 'w"
  get_files :: "string \<Rightarrow> int \<Rightarrow> 'w \<Rightarrow> (exn + string list) \<times> 'w"
  file_content_of :: "string \<Rightarrow> int \<Rightarrow> string \<Rightarrow> 'w \<Rightarrow> string option \<times> 'w"
  report_process :: "message \<Rightarrow> 'w \<Rightarrow> (exn + message list) \<times> 'w"
  json_dumps_str :: "string \<Rightarrow> string"
  repr_str :: "string \<Rightarrow> string"

text \<open>
  Every call that leaves a stage is recorded, with its arguments and its outcome, in a log
  that is threaded through the run next to the state of the world. \<open>ExpertCall\<close> records an
  invocation of a Dispatcher: its agent identifier, the request and the answer.
\<close>

datatype call =
    LLMCall string string "exn + string"
  | GetPullCall string int "exn + unit"
  | GetFilesCall string int "exn + string list"
  | GetContentCall string int string "string option"
  | ReportCall message "exn + message list"
  | ExpertCall string message message

type_synonym 'w world = "'w \<times> call list"

definition llm_complete :: "'w env \<Rightarrow> string \<Rightarrow> string \<Rightarrow> 'w world \<Rightarrow> (exn + string) \<times> 'w world" where
  "llm_complete env sys usr W =
     (case chat_completion env sys usr (fst W) of
        (r, w') \<Rightarrow> (r, (w', snd W @ [LLMCall sys usr r])))"

fun is_llm_call :: "call \<Rightarrow> bool" where
  "is_llm_call (LLMCall sys usr r) = True"
| "is_llm_call c = False"

section \<open>Review Dispatcher (agents/language_expert.py)\<close>

definition nl :: string where
  "nl = [CHR 0x0A]"

text \<open>\<open>sep.join(xs)\<close>.\<close>

fun join :: "string \<Rightarrow> string list \<Rightarrow> string" where
  "join sep [] = []"
| "join sep [x] = x"
| "join sep (x # y # ys) = x @ sep @ join sep (y # ys)"

text \<open>The ASCII characters that \<open>str.strip\<close> and \<open>int\<close> treat as white space.\<close>

definition is_space :: "char \<Rightarrow> bool" where
  "is_space c = (let n = (of_char c :: nat) in (9 \<le> n \<and> n \<le> 13) \<or> (28 \<le> n \<and> n \<le> 32))"

definition str_strip :: "string \<Rightarrow> string" where
  "str_strip s = rev (dropWhile is_space (rev (dropWhile is_space s)))"

text \<open>\<open>[v.strip() for v in text.split('\n') if v.strip()]\<close>.\<close>

definition stripped_lines :: "string \<Rightarrow> string list" where
  "stripped_lines txt =
     map str_strip (filter (\<lambda>v. str_strip v \<noteq> []) (split_on (CHR 0x0A) txt))"

record expert_state =
  agent_id :: string
  language :: string
  reviewed_files :: "string list"
  reviews :: "(string \<times> review_dict) list"

definition language_map :: "(string \<times> string) list" where
  "language_map =
     [(''.py'', ''Python''),
      (''.js'', ''JavaScript''),
      (''.ts'', ''TypeScript''),
      (''.tsx'', ''TypeScript React''),
      (''.jsx'', ''JavaScript React''),
      (''.java'', ''Java''),
      (''.cpp'', ''C++''),
      (''.go'', ''Go''),
      (''.rs'', ''Rust''),
      (''.rb'', ''Ruby''),
      (''.php'', ''PHP''),
      (''.cs'', ''C#'')]"

definition get_language_name :: "string \<Rightarrow> string" where
  "get_language_name ext =
     (case map_of language_map ext of None \<Rightarrow> ''Unknown'' | Some l \<Rightarrow> l)"

definition practices :: "(string \<times> string list) list" where
  "practices =
     [(''Python'',
        [''Use type hints'',
         ''Follow PEP 8'',
         ''Use meaningful variable names'',
         ''Write docstrings'',
         ''Handle exceptions properly'']),
      (''JavaScript'',
        [''Use const/let instead of var'',
         ''Use === instead of =='',
         ''Handle promises properly'',
         ''Use meaningful variable names'',
         ''Add proper error handling'']),
      (''TypeScript'',
        [''Use proper type annotations'',
         ''Avoid any type'',
         ''Use interfaces for object shapes'',
         ''Use enums for constants'',
         ''Follow naming conventions'',
         ''Handle null and undefined properly'',
         ''Use async/await for asynchronous code'',
         ''Implement proper error handling'']),
      (''TypeScript React'',
        [''Use proper type annotations'',
         ''Define prop types using interfaces'',
         ''Use functional components with hooks'',
         ''Implement proper error boundaries'',
         ''Use proper event handling'',
         ''Follow React best practices'',
         ''Use proper state management'',
         ''Handle side effects properly'',
         ''Implement proper accessibility'',
         ''Use proper component composition''])]"

definition load_best_practices :: "string \<Rightarrow> string list" where
  "load_best_practices lang =
     (case map_of practices lang of None \<Rightarrow> [] | Some ps \<Rightarrow> ps)"

text \<open>\<open>not x\<close> for an optional string: absent (\<open>None\<close>) or empty.\<close>

fun falsy :: "string option \<Rightarrow> bool" where
  "falsy None = True"
| "falsy (Some s) = (s = [])"

text \<open>
  The constructor: it derives the language from the extension and raises \<open>ValueError\<close> when
  the API key is unset or empty.
\<close>

definition LanguageExpert_init :: "'w env \<Rightarrow> string \<Rightarrow> exn + expert_state" where
  "LanguageExpert_init env language_extension =
     (let st = \<lparr>agent_id = ''language_expert_'' @ language_extension,
                language = get_language_name language_extension,
                reviewed_files = [],
                reviews = []\<rparr>
      in if falsy (openai_api_key env)
         then Inl (ValueError ''OPENAI_API_KEY environment variable not set'')
         else Inr st)"

definition review_system_prompt :: "string \<Rightarrow> string" where
  "review_system_prompt lang =
     ''You are a senior '' @ lang @ '' developer reviewing code.'' @ nl @
     ''Provide a thorough code review focusing on:'' @ nl @
     ''1. Code quality and best practices'' @ nl @
     ''2. Potential bugs or issues'' @ nl @
     ''3. Performance considerations'' @ nl @
     ''4. Security concerns'' @ nl @
     ''5. Improvement suggestions'' @ nl @
     nl @
     ''Format your review in a clear, constructive manner.''"

definition review_user_prompt :: "string \<Rightarrow> string \<Rightarrow> string \<Rightarrow> string" where
  "review_user_prompt lang filename code =
     ''Review this '' @ lang @ '' code from '' @ filename @ '':'' @ nl @ nl @ code"

definition practices_system_prompt :: "string \<Rightarrow> string" where
  "practices_system_prompt lang =
     ''You are a '' @ lang @ '' best practices analyzer. '' @ nl @
     ''Check if the code follows these best practices:'' @ nl @
     join nl (map (\<lambda>p. ''- '' @ p) (load_best_practices lang)) @ nl @
     ''List only the violations found, be specific.''"

definition practices_user_prompt :: "string \<Rightarrow> string \<Rightarrow> string" where
  "practices_user_prompt lang code =
     ''Code to analyze:'' @ nl @ ''```'' @ lang @ nl @ code @ nl @ ''```''"

definition suggestions_system_prompt :: "string \<Rightarrow> string" where
  "suggestions_system_prompt lang =
     ''You are a '' @ lang @ '' code improvement expert. '' @ nl @
     ''Suggest specific improvements to make the code better. '' @ nl @
     ''Focus on maintainability, performance, and readability. '' @ nl @
     ''Be concise and actionable.''"

definition suggestions_user_prompt :: "string \<Rightarrow> string \<Rightarrow> string" where
  "suggestions_user_prompt lang code =
     ''Code to improve:'' @ nl @ ''```'' @ lang @ nl @ code @ nl @ ''```''"

definition check_best_practices :: "'w env \<Rightarrow> expert_state \<Rightarrow> string \<Rightarrow> 'w world \<Rightarrow> (exn + string list) \<times> 'w world" where
  "check_best_practices env st code W =
     (case llm_complete env (practices_system_prompt (language st))
             (practices_user_prompt (language st) code) W of
        (Inl e, W') \<Rightarrow> (Inl e, W')
      | (Inr txt, W') \<Rightarrow> (Inr (stripped_lines txt), W'))"

definition generate_suggestions :: "'w env \<Rightarrow> expert_state \<Rightarrow> string \<Rightarrow> 'w world \<Rightarrow> (exn + string list) \<times> 'w world" where
  "generate_suggestions env st code W =
     (case llm_complete env (suggestions_system_prompt (language st))
             (suggestions_user_prompt (language st) code) W of
        (Inl e, W') \<Rightarrow> (Inl e, W')
      | (Inr txt, W') \<Rightarrow> (Inr (stripped_lines txt), W'))"

text \<open>\<open>_review_code\<close>: three calls of the model; the first exception is raised again.\<close>

definition review_code :: "'w env \<Rightarrow> expert_state \<Rightarrow> string \<Rightarrow> string \<Rightarrow> 'w world \<Rightarrow> (exn + review_dict) \<times> 'w world" where
  "review_code env st path code W =
     (let filename = last (split_on (CHR ''/'') path)
      in case llm_complete env (review_system_prompt (language st))
                (review_user_prompt (language st) filename code) W of
           (Inl e, W1) \<Rightarrow> (Inl e, W1)
         | (Inr rv, W1) \<Rightarrow>
             (case check_best_practices env st code W1 of
                (Inl e, W2) \<Rightarrow> (Inl e, W2)
              | (Inr violations, W2) \<Rightarrow>
                  (case generate_suggestions env st code W2 of
                     (Inl e, W3) \<Rightarrow> (Inl e, W3)
                   | (Inr sugg, W3) \<Rightarrow>
                       (Inr \<lparr>review_text = rv,
                             best_practices_violations = violations,
                             suggestions = sugg\<rparr>, W3))))"

text \<open>\<open>d[k] = v\<close> on a dictionary in insertion order.\<close>

fun dict_set :: "('k \<times> 'v) list \<Rightarrow> 'k \<Rightarrow> 'v \<Rightarrow> ('k \<times> 'v) list" where
  "dict_set [] k v = [(k, v)]"
| "dict_set ((k', v') # kvs) k v =
     (if k' = k then (k', v) # kvs else (k', v') # dict_set kvs k v)"

definition LanguageExpert_process_message :: "'w env \<Rightarrow> expert_state \<Rightarrow> message \<Rightarrow> 'w world \<Rightarrow> message \<times> expert_state \<times> 'w world" where
  "LanguageExpert_process_message env st m W =
     (if mtype m = REVIEW_REQUEST then
        (case (file_path (content m), file_content (content m)) of
           (Some path, Some code) \<Rightarrow>
             if path = [] \<or> code = []
             then (error_message ''Missing file path or content'' (agent_id st), st, W)
             else
               (case review_code env st path code W of
                  (Inr rv, W') \<Rightarrow>
                    (\<lparr>mtype = REVIEW,
                      content = empty_content
                        \<lparr>file_path := Some path,
                         review := Some rv,
                         pr_number := pr_number (content m)\<rparr>,
                      source = agent_id st\<rparr>,
                     st\<lparr>reviewed_files := reviewed_files st @ [path],
                        reviews := dict_set (reviews st) path rv\<rparr>,
                     W')
                | (Inl e, W') \<Rightarrow> (error_message (exn_str e) (agent_id st), st, W'))
         | _ \<Rightarrow> (error_message ''Missing file path or content'' (agent_id st), st, W))
      else (error_message (''Unsupported message type: '' @ format_message_type (mtype m))
              (agent_id st), st, W))"


section \<open>Orchestrator (orchestrator.py)\<close>

text \<open>
  \<open>int(s)\<close> for a string. The white space that \<open>int\<close> drops around the literal is the
  ASCII white space of C (tab to carriage return, and the space), which is less than
  \<open>str.strip\<close> removes. The literal is an optional sign followed by decimal digits, where
  single underscores may separate digits; more than 4300 digits are refused. The text of the
  \<open>ValueError\<close> for an invalid literal shows the string through \<open>repr\<close>.
\<close>

definition is_c_space :: "char \<Rightarrow> bool" where
  "is_c_space c = (let n = (of_char c :: nat) in (9 \<le> n \<and> n \<le> 13) \<or> n = 32)"

definition py_int :: "'w env \<Rightarrow> string \<Rightarrow> exn + int" where
  "py_int env s =
     (let t = rev (dropWhile is_c_space (rev (dropWhile is_c_space s)));
          neg = (case t of [] \<Rightarrow> False | c # r \<Rightarrow> c = CHR ''-'');
          body = (case t of [] \<Rightarrow> [] | c # r \<Rightarrow> if c = CHR ''-'' \<or> c = CHR ''+'' then r else t);
          ds = filter (\<lambda>c. c \<noteq> CHR ''_'') body
      in if body \<noteq> [] \<and>
            list_all (\<lambda>g. g \<noteq> [] \<and> list_all is_digit g) (split_on (CHR ''_'') body)
         then (if length ds > max_str_digits then Inl (digits_limit_error (length ds))
               else Inr ((if neg then - 1 else 1) * int_of_digits ds))
         else Inl (ValueError (''invalid literal for int() with base 10: '' @ repr_str env s)))"

text \<open>\<open>_extract_repo_name\<close>: \<open>parts[3]\<close> and \<open>parts[4]\<close> raise \<open>IndexError\<close> out of range.\<close>

definition extract_repo_name :: "string \<Rightarrow> exn + string" where
  "extract_repo_name pr_url =
     (let parts = split_on (CHR ''/'') pr_url
      in if length parts < 5 then Inl (IndexError ''list index out of range'')
         else Inr (parts ! 3 @ ''/'' @ parts ! 4))"

text \<open>\<open>int(pr_url.split('/')[-1])\<close>; the list of parts is never empty.\<close>

definition extract_pr_number :: "'w env \<Rightarrow> string \<Rightarrow> exn + int" where
  "extract_pr_number env pr_url = py_int env (last (split_on (CHR ''/'') pr_url))"

text \<open>The calls that leave the Orchestrator, each recorded in the log.\<close>

definition call_get_pull :: "'w env \<Rightarrow> string \<Rightarrow> int \<Rightarrow> 'w world \<Rightarrow> (exn + unit) \<times> 'w world" where
  "call_get_pull env repo n W =
     (case get_pull env repo n (fst W) of
        (r, w') \<Rightarrow> (r, (w', snd W @ [GetPullCall repo n r])))"

definition call_get_files :: "'w env \<Rightarrow> string \<Rightarrow> int \<Rightarrow> 'w world \<Rightarrow> (exn + string list) \<times> 'w world" where
  "call_get_files env repo n W =
     (case get_files env repo n (fst W) of
        (r, w') \<Rightarrow> (r, (w', snd W @ [GetFilesCall repo n r])))"

definition call_file_content :: "'w env \<Rightarrow> string \<Rightarrow> int \<Rightarrow> string \<Rightarrow> 'w world \<Rightarrow> string option \<times> 'w world" where
  "call_file_content env repo n path W =
     (case file_content_of env repo n path (fst W) of
        (r, w') \<Rightarrow> (r, (w', snd W @ [GetContentCall repo n path r])))"

definition call_report :: "'w env \<Rightarrow> message \<Rightarrow> 'w world \<Rightarrow> (exn + message list) \<times> 'w world" where
  "call_report env m W =
     (case report_process env m (fst W) of
        (r, w') \<Rightarrow> (r, (w', snd W @ [ReportCall m r])))"

definition call_expert :: "'w env \<Rightarrow> expert_state \<Rightarrow> message \<Rightarrow> 'w world \<Rightarrow> message \<times> expert_state \<times> 'w world" where
  "call_expert env st m W =
     (case LanguageExpert_process_message env st m W of
        (r, st', W') \<Rightarrow> (r, st', (fst W', snd W' @ [ExpertCall (agent_id st) m r])))"

definition review_request :: "string \<Rightarrow> string \<Rightarrow> int \<Rightarrow> message" where
  "review_request path code n =
     \<lparr>mtype = REVIEW_REQUEST,
      content = empty_content
        \<lparr>file_path := Some path, file_content := Some code, pr_number := Some n\<rparr>,
      source = ''orchestrator''\<rparr>"

definition file_analysis_request :: "string list \<Rightarrow> int \<Rightarrow> message" where
  "file_analysis_request fs n =
     \<lparr>mtype = FILE_ANALYSIS,
      content = empty_content\<lparr>files := Some fs, pr_number := Some n\<rparr>,
      source = ''orchestrator''\<rparr>"

text \<open>\<open>json.dumps({"type": "review", "message": report})\<close>.\<close>

definition review_event :: "'w env \<Rightarrow> string \<Rightarrow> string" where
  "review_event env rep = ''{\"type\": \"review\", \"message\": '' @ json_dumps_str env rep @ ''}''"

definition error_text :: "message \<Rightarrow> string" where
  "error_text m = (case error (content m) of None \<Rightarrow> ''Unknown error'' | Some t \<Rightarrow> t)"

text \<open>The events for the answers of the Report Aggregator to one Review.\<close>

fun report_events :: "'w env \<Rightarrow> message list \<Rightarrow> string list" where
  "report_events env [] = []"
| "report_events env (r # rs) =
     (if mtype r = REPORT
      then [review_event env (case report (content r) of None \<Rightarrow> [] | Some t \<Rightarrow> t)]
      else if mtype r = ERROR
      then [''Error generating report: '' @ error_text r]
      else []) @ report_events env rs"

text \<open>
  The body of the loop over the files of a group: the events it yields, the state of the
  group's Dispatcher and the world afterwards. A file without content is skipped; an exception
  of the Aggregator is caught and reported for the file.
\<close>

definition process_file :: "'w env \<Rightarrow> string \<Rightarrow> int \<Rightarrow> expert_state \<Rightarrow> string \<Rightarrow> 'w world \<Rightarrow> string list \<times> expert_state \<times> 'w world" where
  "process_file env repo n st path W =
     (case call_file_content env repo n path W of
        (c, W1) \<Rightarrow>
          if falsy c then ([], st, W1)
          else
            (case call_expert env st (review_request path (the c) n) W1 of
               (resp, st1, W2) \<Rightarrow>
                 if mtype resp = REVIEW then
                   (case call_report env resp W2 of
                      (Inr rs, W3) \<Rightarrow>
                        ((''Analyzing '' @ path) # report_events env rs, st1, W3)
                    | (Inl e, W3) \<Rightarrow>
                        ([''Analyzing '' @ path,
                          ''Error processing '' @ path @ '': '' @ exn_str e], st1, W3))
                 else if mtype resp = ERROR then
                   ([''Analyzing '' @ path,
                     ''Error analyzing '' @ path @ '': '' @ error_text resp], st1, W2)
                 else ([''Analyzing '' @ path], st1, W2)))"

fun process_files :: "'w env \<Rightarrow> string \<Rightarrow> int \<Rightarrow> expert_state \<Rightarrow> string list \<Rightarrow> 'w world \<Rightarrow> string list \<times> expert_state \<times> 'w world" where
  "process_files env repo n st [] W = ([], st, W)"
| "process_files env repo n st (p # ps) W =
     (case process_file env repo n st p W of
        (e1, st1, W1) \<Rightarrow>
          (case process_files env repo n st1 ps W1 of
             (e2, st2, W2) \<Rightarrow> (e1 @ e2, st2, W2)))"

definition group_header :: "string \<Rightarrow> string list \<Rightarrow> string" where
  "group_header ext fs = ''Processing '' @ show_nat (length fs) @ '' '' @ ext @ '' files''"

text \<open>
  The loop over the language groups. The second component is the exception that leaves the
  generator, if any: only the constructor of a Dispatcher can raise here.
\<close>

fun handle_groups :: "'w env \<Rightarrow> string \<Rightarrow> int \<Rightarrow> (string \<times> string list) list \<Rightarrow> 'w world \<Rightarrow> string list \<times> exn option \<times> 'w world" where
  "handle_groups env repo n [] W = ([], None, W)"
| "handle_groups env repo n ((ext, fs) # rest) W =
     (case LanguageExpert_init env ext of
        Inl e \<Rightarrow> ([group_header ext fs], Some e, W)
      | Inr st \<Rightarrow>
          (case process_files env repo n st fs W of
             (e1, st1, W1) \<Rightarrow>
               (case handle_groups env repo n rest W1 of
                  (e2, x, W2) \<Rightarrow> (group_header ext fs # e1 @ e2, x, W2))))"

definition handle_file_analysis :: "'w env \<Rightarrow> string \<Rightarrow> int \<Rightarrow> message \<Rightarrow> 'w world \<Rightarrow> string list \<times> exn option \<times> 'w world" where
  "handle_file_analysis env repo n m W =
     (case files_by_language (content m) of
        None \<Rightarrow> ([], None, W)
      | Some d \<Rightarrow> if d = [] then ([], None, W) else handle_groups env repo n d W)"

text \<open>The loop of \<open>review_pr\<close> over the answers of the File Classifier.\<close>

fun handle_responses :: "'w env \<Rightarrow> string \<Rightarrow> int \<Rightarrow> message list \<Rightarrow> 'w world \<Rightarrow> string list \<times> exn option \<times> 'w world" where
  "handle_responses env repo n [] W = ([], None, W)"
| "handle_responses env repo n (r # rs) W =
     (if mtype r = FILE_ANALYSIS then
        (case handle_file_analysis env repo n r W of
           (e1, Some x, W1) \<Rightarrow> (''Processing file analysis results'' # e1, Some x, W1)
         | (e1, None, W1) \<Rightarrow>
             (case handle_responses env repo n rs W1 of
                (e2, x, W2) \<Rightarrow> (''Processing file analysis results'' # e1 @ e2, x, W2)))
      else if mtype r = ERROR then
        (case handle_responses env repo n rs W of
           (e2, x, W2) \<Rightarrow> ((''Error during file analysis: '' @ error_text r) # e2, x, W2))
      else handle_responses env repo n rs W)"

text \<open>The handler of \<open>review_pr\<close>: the failure is the last event and is raised again.\<close>

definition fail :: "string list \<Rightarrow> exn \<Rightarrow> 'w world \<Rightarrow> string list \<times> exn option \<times> 'w world" where
  "fail evs e W = (evs @ [''Error during PR review: '' @ exn_str e], Some e, W)"

text \<open>
  \<open>review_pr\<close> on a constructed Orchestrator (its source-control client and its agents are
  set, so \<open>_init_github\<close> and \<open>_init_agents\<close> change nothing): the events yielded, the exception
  that leaves the generator, if any, and the world afterwards.
\<close>

definition review_pr :: "'w env \<Rightarrow> string \<Rightarrow> 'w world \<Rightarrow> string list \<times> exn option \<times> 'w world" where
  "review_pr env pr_url W =
     (let ev0 = [''Initializing PR Review'', ''Extracting PR information''] in
      case extract_repo_name pr_url of
        Inl e \<Rightarrow> fail ev0 e W
      | Inr repo \<Rightarrow>
          (case extract_pr_number env pr_url of
             Inl e \<Rightarrow> fail ev0 e W
           | Inr n \<Rightarrow>
               (let ev1 = ev0 @ [''Fetching PR from GitHub''] in
                case call_get_pull env repo n W of
                  (Inl e, W1) \<Rightarrow> fail ev1 e W1
                | (Inr u, W1) \<Rightarrow>
                    (let ev2 = ev1 @ [''Fetching PR files''] in
                     case call_get_files env repo n W1 of
                       (Inl e, W2) \<Rightarrow> fail ev2 e W2
                     | (Inr fs, W2) \<Rightarrow>
                         if fs = [] then (ev2 @ [''No files found to analyze''], None, W2)
                         else
                           (let responses =
                                  FileAnalyzer_process_message (file_analysis_request fs n) in
                            case handle_responses env repo n responses W2 of
                              (ev3, Some e, W3) \<Rightarrow> fail (ev2 @ ev3) e W3
                            | (ev3, None, W3) \<Rightarrow>
                                (ev2 @ ev3 @
                                 (if responses = [] then [''No files to analyze''] else []) @
                                 [''Review completed successfully''], None, W3))))))"

section \<open>A concrete environment\<close>

text \<open>
  Modelled from the spec: the Report Aggregator (agents/report_analyzer.py is not among the
  sources). It consumes a Review message, appends the finding to the accumulated report text
  of that pull request and returns the accumulated text as one Report message with the fields
  \<open>report\<close> and \<open>pr_number\<close>. The state of the world is its mapping from pull-request numbers
  to report texts. The layout of a finding is the Aggregator's own choice; here it is the
  file path and the review text on two lines.
\<close>

definition spec_report_process :: "message \<Rightarrow> (int option \<times> string) list \<Rightarrow> (exn + message list) \<times> (int option \<times> string) list" where
  "spec_report_process m reports =
     (if mtype m = REVIEW then
        (let key = pr_number (content m);
             old = (case map_of reports key of None \<Rightarrow> [] | Some t \<Rightarrow> t);
             finding = (case file_path (content m) of None \<Rightarrow> [] | Some p \<Rightarrow> p) @ nl @
                       (case review (content m) of None \<Rightarrow> [] | Some rv \<Rightarrow> review_text rv) @ nl;
             new = old @ finding
         in (Inr [\<lparr>mtype = REPORT,
                   content = empty_content\<lparr>report := Some new, pr_number := key\<rparr>,
                   source = ''report_analyzer''\<rparr>],
             dict_set reports key new))
      else (Inr [error_message (''Unsupported message type: '' @ format_message_type (mtype m))
                   ''report_analyzer''], reports))"

text \<open>
  \<open>json.dumps\<close> on a string of printable ASCII characters, line feeds, carriage returns and
  tabs: the text in double quotes, with the double quote, the backslash and these three control
  characters escaped.
\<close>

definition json_escape_char :: "char \<Rightarrow> string" where
  "json_escape_char c =
     (if c = CHR 0x22 then [CHR 0x5C, CHR 0x22]
      else if c = CHR 0x5C then [CHR 0x5C, CHR 0x5C]
      else if c = CHR 0x0A then [CHR 0x5C, CHR ''n'']
      else if c = CHR 0x0D then [CHR 0x5C, CHR ''r'']
      else if c = CHR 0x09 then [CHR 0x5C, CHR ''t'']
      else [c])"

definition json_dumps_ascii :: "string \<Rightarrow> string" where
  "json_dumps_ascii s = [CHR 0x22] @ concat (map json_escape_char s) @ [CHR 0x22]"

text \<open>
  A run in which every outside call succeeds: the pull request has the one file \<open>app.py\<close>, the
  model answers \<open>fine\<close> to every prompt. \<open>repr\<close> is given on texts without characters to
  escape.
\<close>

definition demo_env :: "(int option \<times> string) list env" where
  "demo_env =
     \<lparr>openai_api_key = Some ''key'',
      chat_completion = (\<lambda>sys usr w. (Inr ''fine'', w)),
      get_pull = (\<lambda>repo n w. (Inr (), w)),
      get_files = (\<lambda>repo n w. (Inr [''app.py''], w)),
      file_content_of = (\<lambda>repo n path w. (Some ''x = 1'', w)),
      report_process = spec_report_process,
      json_dumps_str = json_dumps_ascii,
      repr_str = (\<lambda>s. [CHR 0x27] @ s @ [CHR 0x27])\<rparr>"

text \<open>The same environment with a model client that raises on every call.\<close>

definition failing_env :: "(int option \<times> string) list env" where
  "failing_env =
     demo_env\<lparr>chat_completion := (\<lambda>sys usr w. (Inl (Raised ''Connection error.''), w))\<rparr>"

text \<open>The Dispatcher that the constructor builds for the extension \<open>.py\<close>.\<close>

definition demo_expert :: expert_state where
  "demo_expert =
     \<lparr>agent_id = ''language_expert_.py'', language = ''Python'',
      reviewed_files = [], reviews = []\<rparr>"

text \<open>
  A run over three files in two groups, \<open>a.py\<close>, \<open>b.py\<close> and \<open>c.js\<close>, in which the model client
  raises on the review prompt for \<open>a.py\<close> and answers \<open>fine\<close> to every other prompt.
\<close>

definition mixed_env :: "(int option \<times> string) list env" where
  "mixed_env =
     demo_env
       \<lparr>chat_completion :=
          (\<lambda>sys usr w.
             if usr = review_user_prompt ''Python'' ''a.py'' ''x = 1''
             then (Inl (Raised ''Connection error.''), w)
             else (Inr ''fine'', w)),
        get_files := (\<lambda>repo n w. (Inr [''a.py'', ''b.py'', ''c.js''], w))\<rparr>"


section \<open>What the log of a run says about its events\<close>

text \<open>The events that follow \<open>Analyzing <path>\<close> for a Review handed to the Aggregator.\<close>

definition outcome_events :: "'w env \<Rightarrow> string \<Rightarrow> exn + message list \<Rightarrow> string list" where
  "outcome_events env p out =
     (case out of
        Inr rs \<Rightarrow> report_events env rs
      | Inl e \<Rightarrow> [''Error processing '' @ p @ '': '' @ exn_str e])"

text \<open>
  \<open>run_facts env evs new\<close> relates the events \<open>evs\<close> of a part of a run to the calls \<open>new\<close>
  that this part added to the log. Every invocation of a Dispatcher was for a file path. If it
  answered with an Error, the events \<open>Analyzing <path>\<close> and
  \<open>Error analyzing <path>: <text>\<close> follow each other in the events. If it answered with a
  Review, the Review was handed to the Report Aggregator, and \<open>Analyzing <path>\<close> is followed
  at once by the events for the outcome of that call.
\<close>

definition run_facts :: "'w env \<Rightarrow> string list \<Rightarrow> call list \<Rightarrow> bool" where
  "run_facts env evs new =
     (\<forall>aid req resp. ExpertCall aid req resp \<in> set new \<longrightarrow>
        (\<exists>p. file_path (content req) = Some p \<and>
             (mtype resp = ERROR \<longrightarrow>
                sublist [''Analyzing '' @ p,
                         ''Error analyzing '' @ p @ '': '' @ error_text resp] evs) \<and>
             (mtype resp = REVIEW \<longrightarrow>
                (\<exists>out. ReportCall resp out \<in> set new \<and>
                   sublist ((''Analyzing '' @ p) # outcome_events env p out) evs))))"

text \<open>
  The file was taken up: its content was requested from the source-control client, and if
  there is content, the file was announced and a request built from that content was put to the
  Dispatcher with the given identifier.
\<close>

definition file_handled :: "string \<Rightarrow> int \<Rightarrow> string \<Rightarrow> string \<Rightarrow> string list \<Rightarrow> call list \<Rightarrow> bool" where
  "file_handled repo n aid f evs new =
     (\<exists>c. GetContentCall repo n f c \<in> set new \<and>
          (\<not> falsy c \<longrightarrow>
             ''Analyzing '' @ f \<in> set evs \<and>
             (\<exists>r. ExpertCall aid (review_request f (the c) n) r \<in> set new)))"

text \<open>
  Every group was taken up: its header was emitted and each of its files was taken up by the
  Dispatcher of the group's extension.
\<close>

definition groups_handled :: "string \<Rightarrow> int \<Rightarrow> (string \<times> string list) list \<Rightarrow> string list \<Rightarrow> call list \<Rightarrow> bool" where
  "groups_handled repo n groups evs new =
     (\<forall>(ext, fs) \<in> set groups.
        group_header ext fs \<in> set evs \<and>
        (\<forall>f \<in> set fs. file_handled repo n (''language_expert_'' @ ext) f evs new))"


section \<open>Properties of the File Classifier\<close>

lemma first_seen_snoc:
  "first_seen (xs @ [x]) = (if x \<in> set xs then first_seen xs else first_seen xs @ [x])"
  by (simp add: first_seen_def)

lemma dict_append_keys:
  "map fst (dict_append d e f) = (if e \<in> fst ` set d then map fst d else map fst d @ [e])"
  by (induction d e f rule: dict_append.induct) auto

lemma dict_append_set:
  assumes "distinct (map fst d)"
  shows "set (dict_append d e f) =
           (if e \<in> fst ` set d
            then {(k, if k = e then v @ [f] else v) | k v. (k, v) \<in> set d}
            else set d \<union> {(e, [f])})"
  using assms
proof (induction d e f rule: dict_append.induct)
  case (1 x y)
  then show ?case by simp
next
  case (2 k v kvs x y)
  show ?case
  proof (cases "k = x")
    case True
    with 2 have "x \<notin> fst ` set kvs" by auto
    then have same: "{(k', if k' = x then v' @ [y] else v') | k' v'. (k', v') \<in> set kvs} = set kvs"
      by force
    have "{(k', if k' = x then v' @ [y] else v') | k' v'. (k', v') \<in> set ((x, v) # kvs)} =
            insert (x, v @ [y])
              {(k', if k' = x then v' @ [y] else v') | k' v'. (k', v') \<in> set kvs}"
      by auto
    with same True show ?thesis by simp
  next
    case False
    with 2 show ?thesis by auto
  qed
qed

lemma dict_append_mset:
  "mset (concat (map snd (dict_append d e f))) = mset (concat (map snd d)) + {#f#}"
  by (induction d e f rule: dict_append.induct) auto

lemma categorize_snoc:
  "categorize d (fs @ [f]) = dict_append (categorize d fs) (get_file_extension f) f"
  by (induction fs arbitrary: d) auto

lemma categorize_keys:
  "map fst (categorize [] fs) = first_seen (map get_file_extension fs)"
proof (induction fs rule: rev_induct)
  case Nil
  then show ?case by (simp add: first_seen_def)
next
  case (snoc f fs)
  have "set (first_seen (map get_file_extension fs)) = get_file_extension ` set fs"
    by (simp add: first_seen_def)
  with snoc have "fst ` set (categorize [] fs) = get_file_extension ` set fs"
    by (metis set_map)
  with snoc show ?case
    by (simp add: categorize_snoc dict_append_keys first_seen_snoc)
qed

lemma categorize_distinct: "distinct (map fst (categorize [] fs))"
  by (simp add: categorize_keys first_seen_def)

lemma categorize_groups:
  "(e, g) \<in> set (categorize [] fs) \<Longrightarrow> g = filter (\<lambda>f. get_file_extension f = e) fs"
proof (induction fs arbitrary: e g rule: rev_induct)
  case Nil
  then show ?case by simp
next
  case (snoc f fs)
  let ?d = "categorize [] fs"
  let ?x = "get_file_extension f"
  have mem: "(e, g) \<in> set (dict_append ?d ?x f)"
    using snoc.prems by (simp add: categorize_snoc)
  show ?case
  proof (cases "?x \<in> fst ` set ?d")
    case True
    with mem obtain v where v: "(e, v) \<in> set ?d" "g = (if e = ?x then v @ [f] else v)"
      by (auto simp: dict_append_set [OF categorize_distinct])
    from snoc.IH [OF v(1)] v(2) show ?thesis by auto
  next
    case False
    with mem have "(e, g) \<in> set ?d \<or> (e = ?x \<and> g = [f])"
      by (auto simp: dict_append_set [OF categorize_distinct])
    then show ?thesis
    proof
      assume in_d: "(e, g) \<in> set ?d"
      then have "e \<noteq> ?x" using False by force
      with snoc.IH [OF in_d] show ?thesis by auto
    next
      assume new: "e = ?x \<and> g = [f]"
      have "?x \<notin> get_file_extension ` set fs"
        using False categorize_keys [of fs]
        by (metis first_seen_def set_map set_remdups set_rev)
      then have "filter (\<lambda>f'. get_file_extension f' = ?x) fs = []"
        unfolding filter_empty_conv by (metis imageI)
      with new show ?thesis by simp
    qed
  qed
qed

lemma categorize_mset: "mset (concat (map snd (categorize [] fs))) = mset fs"
  by (induction fs rule: rev_induct) (simp_all add: categorize_snoc dict_append_mset)

lemma categorize_unique_group:
  assumes "f \<in> set fs"
  shows "\<exists>!e. \<exists>g. (e, g) \<in> set (categorize [] fs) \<and> f \<in> set g"
proof
  have "get_file_extension f \<in> set (map fst (categorize [] fs))"
    using assms by (simp add: categorize_keys first_seen_def)
  then obtain g where g: "(get_file_extension f, g) \<in> set (categorize [] fs)"
    by auto
  with categorize_groups [OF g] assms
  show "\<exists>g. (get_file_extension f, g) \<in> set (categorize [] fs) \<and> f \<in> set g"
    by auto
next
  fix e
  assume "\<exists>g. (e, g) \<in> set (categorize [] fs) \<and> f \<in> set g"
  then obtain g where g: "(e, g) \<in> set (categorize [] fs)" "f \<in> set g"
    by blast
  from categorize_groups [OF g(1)] g(2) show "e = get_file_extension f"
    by simp
qed

text \<open>
  Claim C6. When some file of a FileAnalysis request survives filtering, the Classifier
  answers with one FileAnalysis message whose \<open>files_by_language\<close> dictionary has one key per
  extension of a surviving file, in the order in which the extensions are first met; the group
  of an extension is the list of the surviving files with that extension, in input order; the
  groups together hold exactly the surviving files, with their multiplicities; and every
  surviving file lies in the group of exactly one key.
\<close>

theorem classifier_groups_partition:
  assumes "mtype m = FILE_ANALYSIS"
    and "files (content m) = Some fs"
    and "filter is_relevant_file fs \<noteq> []"
  shows "\<exists>fbl.
           FileAnalyzer_process_message m =
             [\<lparr>mtype = FILE_ANALYSIS,
               content = empty_content
                 \<lparr>files_by_language := Some fbl, pr_number := pr_number (content m)\<rparr>,
               source = ''file_analyzer''\<rparr>] \<and>
           distinct (map fst fbl) \<and>
           map fst fbl = first_seen (map get_file_extension (filter is_relevant_file fs)) \<and>
           (\<forall>(e, g) \<in> set fbl.
              g = filter (\<lambda>f. get_file_extension f = e) (filter is_relevant_file fs)) \<and>
           mset (concat (map snd fbl)) = mset (filter is_relevant_file fs) \<and>
           (\<forall>f \<in> set (filter is_relevant_file fs).
              \<exists>!e. \<exists>g. (e, g) \<in> set fbl \<and> f \<in> set g)"
proof -
  let ?rel = "filter is_relevant_file fs"
  let ?fbl = "categorize [] ?rel"
  from assms have "fs \<noteq> []" by auto
  with assms have
    "FileAnalyzer_process_message m =
       [\<lparr>mtype = FILE_ANALYSIS,
         content = empty_content
           \<lparr>files_by_language := Some ?fbl, pr_number := pr_number (content m)\<rparr>,
         source = ''file_analyzer''\<rparr>]"
    by (simp add: FileAnalyzer_process_message_def)
  moreover have "distinct (map fst ?fbl)"
    by (rule categorize_distinct)
  moreover have "map fst ?fbl = first_seen (map get_file_extension ?rel)"
    by (rule categorize_keys)
  moreover have "\<forall>(e, g) \<in> set ?fbl. g = filter (\<lambda>f. get_file_extension f = e) ?rel"
    using categorize_groups by blast
  moreover have "mset (concat (map snd ?fbl)) = mset ?rel"
    by (rule categorize_mset)
  moreover have "\<forall>f \<in> set ?rel. \<exists>!e. \<exists>g. (e, g) \<in> set ?fbl \<and> f \<in> set g"
    using categorize_unique_group by blast
  ultimately show ?thesis by blast
qed

theorem classifier_groups_partition_witness:
  "\<exists>fbl.
     FileAnalyzer_process_message
       \<lparr>mtype = FILE_ANALYSIS,
        content = empty_content
          \<lparr>files := Some [''src/app.py'', ''logo.png'', ''web/b.js'', ''node_modules/x.js'', ''c.PY''],
           pr_number := Some 42\<rparr>,
        source = ''orchestrator''\<rparr> =
       [\<lparr>mtype = FILE_ANALYSIS,
         content = empty_content\<lparr>files_by_language := Some fbl, pr_number := Some 42\<rparr>,
         source = ''file_analyzer''\<rparr>] \<and>
     distinct (map fst fbl) \<and>
     map fst fbl = [''.py'', ''.js''] \<and>
     (\<forall>(e, g) \<in> set fbl.
        g = filter (\<lambda>f. get_file_extension f = e) [''src/app.py'', ''web/b.js'', ''c.PY'']) \<and>
     mset (concat (map snd fbl)) = mset [''src/app.py'', ''web/b.js'', ''c.PY''] \<and>
     (\<forall>f \<in> set [''src/app.py'', ''web/b.js'', ''c.PY''].
        \<exists>!e. \<exists>g. (e, g) \<in> set fbl \<and> f \<in> set g)"
proof -
  let ?fs = "[''src/app.py'', ''logo.png'', ''web/b.js'', ''node_modules/x.js'', ''c.PY'']"
  let ?m = "\<lparr>mtype = FILE_ANALYSIS,
             content = empty_content\<lparr>files := Some ?fs, pr_number := Some 42\<rparr>,
             source = ''orchestrator''\<rparr>"
  have rel: "filter is_relevant_file ?fs = [''src/app.py'', ''web/b.js'', ''c.PY'']"
    by code_simp
  have ext: "first_seen (map get_file_extension [''src/app.py'', ''web/b.js'', ''c.PY'']) =
               [''.py'', ''.js'']"
    by code_simp
  have h1: "mtype ?m = FILE_ANALYSIS" by simp
  have h2: "files (content ?m) = Some ?fs" by (simp add: empty_content_def)
  have h3: "filter is_relevant_file ?fs \<noteq> []" unfolding rel by simp
  have pr: "pr_number (content ?m) = Some 42" by (simp add: empty_content_def)
  from classifier_groups_partition [OF h1 h2 h3]
  show ?thesis
    unfolding rel ext pr .
qed

section \<open>Properties of URL parsing\<close>

lemma match_lit_sound: "match_lit l s = Some r \<Longrightarrow> s = l @ r"
  by (induction l s rule: match_lit.induct) (auto split: if_splits)

lemma match_lit_complete: "match_lit l (l @ r) = Some r"
  by (induction l) auto

lemma match_star_sound:
  "match_star P k acc s = Some g \<Longrightarrow>
     \<exists>xs ys. s = xs @ ys \<and> list_all P xs \<and> k (acc @ xs) ys = Some g"
proof (induction s arbitrary: acc)
  case Nil
  then show ?case by simp
next
  case (Cons c cs)
  show ?case
  proof (cases "P c \<and> match_star P k (acc @ [c]) cs \<noteq> None")
    case True
    with Cons.prems have "match_star P k (acc @ [c]) cs = Some g"
      by (auto split: option.splits)
    from Cons.IH [OF this] obtain xs ys where
      "cs = xs @ ys" "list_all P xs" "k ((acc @ [c]) @ xs) ys = Some g"
      by blast
    with True have "c # cs = (c # xs) @ ys \<and> list_all P (c # xs) \<and> k (acc @ (c # xs)) ys = Some g"
      by simp
    then show ?thesis by blast
  next
    case False
    with Cons.prems have "k acc (c # cs) = Some g"
      by (auto split: option.splits if_splits)
    then have "c # cs = [] @ (c # cs) \<and> list_all P [] \<and> k (acc @ []) (c # cs) = Some g"
      by simp
    then show ?thesis by blast
  qed
qed

lemma match_plus_sound:
  assumes "match_plus P k s = Some g"
  shows "\<exists>xs ys. s = xs @ ys \<and> xs \<noteq> [] \<and> list_all P xs \<and> k xs ys = Some g"
proof (cases s)
  case Nil
  with assms show ?thesis by (simp add: match_plus_def)
next
  case (Cons c cs)
  with assms have c: "P c" and "match_star P k [c] cs = Some g"
    by (auto simp: match_plus_def split: if_splits)
  from match_star_sound [OF this(2)] obtain xs ys where
    "cs = xs @ ys" "list_all P xs" "k ([c] @ xs) ys = Some g"
    by blast
  with Cons c have "s = (c # xs) @ ys \<and> c # xs \<noteq> [] \<and> list_all P (c # xs) \<and> k (c # xs) ys = Some g"
    by simp
  then show ?thesis by blast
qed

lemma not_slash_run: "list_all (\<lambda>c. c \<noteq> CHR ''/'') xs \<longleftrightarrow> CHR ''/'' \<notin> set xs"
  by (induction xs) auto

lemma match_here_sound:
  assumes "match_here s = Some (owner, repo, num)"
  shows "\<exists>post. s = ''github.com/'' @ owner @ ''/'' @ repo @ ''/pull/'' @ num @ post \<and>
           owner \<noteq> [] \<and> CHR ''/'' \<notin> set owner \<and>
           repo \<noteq> [] \<and> CHR ''/'' \<notin> set repo \<and>
           num \<noteq> [] \<and> list_all is_digit num"
proof -
  let ?k3 = "\<lambda>owner repo. (\<lambda>num (r6::string). Some (owner, repo, num))"
  let ?k2 = "\<lambda>owner. (\<lambda>repo r4. case match_lit ''/pull/'' r4 of None \<Rightarrow> None
                 | Some r5 \<Rightarrow> match_plus is_digit (?k3 owner repo) r5)"
  let ?k1 = "\<lambda>owner r2. case match_lit ''/'' r2 of None \<Rightarrow> None
                 | Some r3 \<Rightarrow> match_plus (\<lambda>c. c \<noteq> CHR ''/'') (?k2 owner) r3"
  from assms obtain r1 where r1: "match_lit ''github.com/'' s = Some r1"
    and m1: "match_plus (\<lambda>c. c \<noteq> CHR ''/'') ?k1 r1 = Some (owner, repo, num)"
    unfolding match_here_def by (cases "match_lit ''github.com/'' s") simp_all
  from match_plus_sound [OF m1] obtain o' r2 where
    o: "r1 = o' @ r2" "o' \<noteq> []" "list_all (\<lambda>c. c \<noteq> CHR ''/'') o'"
    and k1: "?k1 o' r2 = Some (owner, repo, num)"
    by blast
  from k1 obtain r3 where r3: "match_lit ''/'' r2 = Some r3"
    and m2: "match_plus (\<lambda>c. c \<noteq> CHR ''/'') (?k2 o') r3 = Some (owner, repo, num)"
    by (cases "match_lit ''/'' r2") simp_all
  from match_plus_sound [OF m2] obtain p' r4 where
    p: "r3 = p' @ r4" "p' \<noteq> []" "list_all (\<lambda>c. c \<noteq> CHR ''/'') p'"
    and k2: "?k2 o' p' r4 = Some (owner, repo, num)"
    by blast
  from k2 obtain r5 where r5: "match_lit ''/pull/'' r4 = Some r5"
    and m3: "match_plus is_digit (?k3 o' p') r5 = Some (owner, repo, num)"
    by (cases "match_lit ''/pull/'' r4") simp_all
  from match_plus_sound [OF m3] obtain n' r6 where
    n: "r5 = n' @ r6" "n' \<noteq> []" "list_all is_digit n'"
    and k3: "?k3 o' p' n' r6 = Some (owner, repo, num)"
    by blast
  from k3 have eq: "o' = owner" "p' = repo" "n' = num" by simp_all
  have "s = ''github.com/'' @ r1" by (rule match_lit_sound [OF r1])
  also have "r1 = owner @ r2" using o(1) eq by simp
  also have "r2 = ''/'' @ r3" by (rule match_lit_sound [OF r3])
  also have "r3 = repo @ r4" using p(1) eq by simp
  also have "r4 = ''/pull/'' @ r5" by (rule match_lit_sound [OF r5])
  also have "r5 = num @ r6" using n(1) eq by simp
  finally have "s = ''github.com/'' @ owner @ ''/'' @ repo @ ''/pull/'' @ num @ r6" .
  moreover from o p n eq have "owner \<noteq> []" "CHR ''/'' \<notin> set owner" "repo \<noteq> []"
    "CHR ''/'' \<notin> set repo" "num \<noteq> []" "list_all is_digit num"
    by (simp_all add: not_slash_run)
  ultimately show ?thesis by blast
qed

lemma re_search_sound:
  "re_search s = Some (owner, repo, num) \<Longrightarrow>
     \<exists>pre post. s = pre @ ''github.com/'' @ owner @ ''/'' @ repo @ ''/pull/'' @ num @ post \<and>
           owner \<noteq> [] \<and> CHR ''/'' \<notin> set owner \<and>
           repo \<noteq> [] \<and> CHR ''/'' \<notin> set repo \<and>
           num \<noteq> [] \<and> list_all is_digit num"
proof (induction s)
  case Nil
  from match_here_sound [of "[]" owner repo num] Nil show ?case by simp
next
  case (Cons c cs)
  show ?case
  proof (cases "match_here (c # cs)")
    case None
    with Cons.prems have "re_search cs = Some (owner, repo, num)" by simp
    from Cons.IH [OF this] obtain pre post where
      "cs = pre @ ''github.com/'' @ owner @ ''/'' @ repo @ ''/pull/'' @ num @ post \<and>
           owner \<noteq> [] \<and> CHR ''/'' \<notin> set owner \<and>
           repo \<noteq> [] \<and> CHR ''/'' \<notin> set repo \<and>
           num \<noteq> [] \<and> list_all is_digit num" by blast
    then have "c # cs = (c # pre) @ ''github.com/'' @ owner @ ''/'' @ repo @ ''/pull/'' @ num @ post \<and>
           owner \<noteq> [] \<and> CHR ''/'' \<notin> set owner \<and>
           repo \<noteq> [] \<and> CHR ''/'' \<notin> set repo \<and>
           num \<noteq> [] \<and> list_all is_digit num" by simp
    then show ?thesis by blast
  next
    case (Some g)
    with Cons.prems have "match_here (c # cs) = Some (owner, repo, num)" by simp
    from match_here_sound [OF this] obtain post where
      "c # cs = [] @ ''github.com/'' @ owner @ ''/'' @ repo @ ''/pull/'' @ num @ post \<and>
           owner \<noteq> [] \<and> CHR ''/'' \<notin> set owner \<and>
           repo \<noteq> [] \<and> CHR ''/'' \<notin> set repo \<and>
           num \<noteq> [] \<and> list_all is_digit num" by auto
    then show ?thesis by blast
  qed
qed

lemma match_star_complete:
  "list_all P xs \<Longrightarrow> k (acc @ xs) ys \<noteq> None \<Longrightarrow> match_star P k acc (xs @ ys) \<noteq> None"
proof (induction xs arbitrary: acc)
  case Nil
  then show ?case by (cases ys) (auto split: option.splits)
next
  case (Cons x xs)
  from Cons.prems have "match_star P k (acc @ [x]) (xs @ ys) \<noteq> None"
    by (intro Cons.IH) simp_all
  with Cons.prems show ?case by (auto split: option.splits)
qed

lemma match_plus_complete:
  assumes "xs \<noteq> []" and "list_all P xs" and "k xs ys \<noteq> None"
  shows "match_plus P k (xs @ ys) \<noteq> None"
proof -
  from assms(1) obtain c cs where xs: "xs = c # cs" by (cases xs) auto
  from xs assms have "match_star P k [c] (cs @ ys) \<noteq> None"
    by (intro match_star_complete) simp_all
  with xs assms show ?thesis by (simp add: match_plus_def)
qed

lemma match_here_complete:
  assumes "owner \<noteq> []" "CHR ''/'' \<notin> set owner" "repo \<noteq> []" "CHR ''/'' \<notin> set repo"
    "num \<noteq> []" "list_all is_digit num"
  shows "match_here (''github.com/'' @ owner @ ''/'' @ repo @ ''/pull/'' @ num @ post) \<noteq> None"
proof -
  let ?k3 = "\<lambda>owner repo. (\<lambda>num (r6::string). Some (owner, repo, num))"
  let ?k2 = "\<lambda>owner. (\<lambda>repo r4. case match_lit ''/pull/'' r4 of None \<Rightarrow> None
                 | Some r5 \<Rightarrow> match_plus is_digit (?k3 owner repo) r5)"
  let ?k1 = "\<lambda>owner r2. case match_lit ''/'' r2 of None \<Rightarrow> None
                 | Some r3 \<Rightarrow> match_plus (\<lambda>c. c \<noteq> CHR ''/'') (?k2 owner) r3"
  have s3: "match_plus is_digit (?k3 owner repo) (num @ post) \<noteq> None"
    using assms by (intro match_plus_complete) simp_all
  have "match_lit ''/pull/'' (''/pull/'' @ num @ post) = Some (num @ post)"
    by (rule match_lit_complete)
  with s3 have "?k2 owner repo (''/pull/'' @ num @ post) \<noteq> None"
    by simp
  with assms have s2: "match_plus (\<lambda>c. c \<noteq> CHR ''/'') (?k2 owner)
                     (repo @ ''/pull/'' @ num @ post) \<noteq> None"
    by (intro match_plus_complete) (simp_all add: not_slash_run)
  have "match_lit ''/'' (''/'' @ repo @ ''/pull/'' @ num @ post) =
          Some (repo @ ''/pull/'' @ num @ post)"
    by (rule match_lit_complete)
  with s2 have "?k1 owner (''/'' @ repo @ ''/pull/'' @ num @ post) \<noteq> None"
    by simp
  with assms have s1: "match_plus (\<lambda>c. c \<noteq> CHR ''/'') ?k1
                     (owner @ ''/'' @ repo @ ''/pull/'' @ num @ post) \<noteq> None"
    by (intro match_plus_complete) (simp_all add: not_slash_run)
  have "match_lit ''github.com/'' (''github.com/'' @ owner @ ''/'' @ repo @ ''/pull/'' @ num @ post) =
          Some (owner @ ''/'' @ repo @ ''/pull/'' @ num @ post)"
    by (rule match_lit_complete)
  with s1 show ?thesis
    unfolding match_here_def by simp
qed

lemma re_search_complete:
  "match_here s \<noteq> None \<Longrightarrow> re_search (pre @ s) \<noteq> None"
proof (induction pre)
  case Nil
  then show ?case by (cases s) auto
next
  case (Cons c pre)
  then show ?case by (auto split: option.splits)
qed

lemma contains_pr_shape_length:
  assumes "contains_pr_shape s"
  shows "21 \<le> length s"
proof -
  from assms obtain pre owner repo num post where
    s: "s = pre @ ''github.com/'' @ owner @ ''/'' @ repo @ ''/pull/'' @ num @ post"
    and ne: "owner \<noteq> []" "repo \<noteq> []" "num \<noteq> []"
    unfolding contains_pr_shape_def by blast
  from ne have "1 \<le> length owner" "1 \<le> length repo" "1 \<le> length num"
    by (simp_all add: Suc_le_eq)
  with s show ?thesis by simp
qed

text \<open>
  The converse of the second half of claim C5: a text that contains the shape is not refused
  as an invalid URL (it yields the triple, or the \<open>ValueError\<close> of a number with more than
  4300 digits), so that refusal is exactly the absence of the shape.
\<close>

lemma extract_repo_info_accepts:
  assumes "contains_pr_shape s"
  shows "extract_repo_info s \<noteq> Inl (ValueError ''Invalid GitHub PR URL'')"
proof -
  from assms obtain pre owner repo num post where
    s: "s = pre @ ''github.com/'' @ owner @ ''/'' @ repo @ ''/pull/'' @ num @ post"
    and ok: "owner \<noteq> []" "CHR ''/'' \<notin> set owner" "repo \<noteq> []" "CHR ''/'' \<notin> set repo"
      "num \<noteq> []" "list_all is_digit num"
    unfolding contains_pr_shape_def by blast
  from match_here_complete [OF ok] have "re_search s \<noteq> None"
    unfolding s by (rule re_search_complete)
  then obtain a b ds where g: "re_search s = Some (a, b, ds)"
    by (cases "re_search s") auto
  show ?thesis
  proof (cases "length ds > max_str_digits")
    case True
    with g have "extract_repo_info s = Inl (digits_limit_error (length ds))"
      by (simp add: extract_repo_info_def int_of_decimal_def)
    then show ?thesis by (simp add: digits_limit_error_def)
  next
    case False
    with g show ?thesis
      by (simp add: extract_repo_info_def int_of_decimal_def)
  qed
qed

text \<open>
  Claim C5. \<open>extract_repo_info\<close> maps \<open>https://github.com/acme/widgets/pull/42\<close> to the
  triple of \<open>acme\<close>, \<open>widgets\<close> and 42, and on every text that contains no part of the shape
  \<open>github.com/<owner>/<repo>/pull/<digits>\<close> it raises \<open>ValueError\<close> with the text
  \<open>Invalid GitHub PR URL\<close>.
\<close>

theorem extract_repo_info_roundtrip_and_reject:
  "extract_repo_info ''https://github.com/acme/widgets/pull/42'' = Inr (''acme'', ''widgets'', 42) \<and>
   (\<forall>s. \<not> contains_pr_shape s \<longrightarrow>
          extract_repo_info s = Inl (ValueError ''Invalid GitHub PR URL''))"
proof (intro conjI allI impI)
  show "extract_repo_info ''https://github.com/acme/widgets/pull/42'' =
          Inr (''acme'', ''widgets'', 42)"
    by code_simp
next
  fix s
  assume no: "\<not> contains_pr_shape s"
  have "re_search s = None"
  proof (cases "re_search s")
    case None
    then show ?thesis .
  next
    case (Some g)
    obtain owner repo num where "g = (owner, repo, num)" by (cases g) auto
    with Some have "contains_pr_shape s"
      unfolding contains_pr_shape_def using re_search_sound by blast
    with no show ?thesis by simp
  qed
  then show "extract_repo_info s = Inl (ValueError ''Invalid GitHub PR URL'')"
    by (simp add: extract_repo_info_def)
qed

theorem extract_repo_info_roundtrip_and_reject_witness:
  "\<not> contains_pr_shape ''https://example.com'' \<and>
   extract_repo_info ''https://example.com'' = Inl (ValueError ''Invalid GitHub PR URL'')"
proof -
  have no: "\<not> contains_pr_shape ''https://example.com''"
    using contains_pr_shape_length [of "''https://example.com''"] by auto
  with extract_repo_info_roundtrip_and_reject show ?thesis by blast
qed

section \<open>Properties of the Review Dispatcher\<close>

lemma llm_complete_log:
  "llm_complete env sys usr W = (r, W') \<Longrightarrow> snd W' = snd W @ [LLMCall sys usr r]"
  by (auto simp: llm_complete_def split: prod.splits)

lemma check_best_practices_log:
  assumes "check_best_practices env st code W = (res, W')"
  shows "(\<exists>e. res = Inl e \<and>
            snd W' = snd W @ [LLMCall (practices_system_prompt (language st))
                                (practices_user_prompt (language st) code) (Inl e)]) \<or>
         (\<exists>txt. res = Inr (stripped_lines txt) \<and>
            snd W' = snd W @ [LLMCall (practices_system_prompt (language st))
                                (practices_user_prompt (language st) code) (Inr txt)])"
proof -
  obtain r1 W1 where c: "llm_complete env (practices_system_prompt (language st))
                           (practices_user_prompt (language st) code) W = (r1, W1)"
    by (cases "llm_complete env (practices_system_prompt (language st))
                 (practices_user_prompt (language st) code) W") auto
  note l = llm_complete_log [OF c]
  show ?thesis
  proof (cases r1)
    case (Inl e)
    with assms c have "res = Inl e" "W' = W1"
      by (simp_all add: check_best_practices_def)
    with l Inl show ?thesis by simp
  next
    case (Inr t)
    with assms c have "res = Inr (stripped_lines t)" "W' = W1"
      by (simp_all add: check_best_practices_def)
    with l Inr show ?thesis by simp
  qed
qed

lemma generate_suggestions_log:
  assumes "generate_suggestions env st code W = (res, W')"
  shows "(\<exists>e. res = Inl e \<and>
            snd W' = snd W @ [LLMCall (suggestions_system_prompt (language st))
                                (suggestions_user_prompt (language st) code) (Inl e)]) \<or>
         (\<exists>txt. res = Inr (stripped_lines txt) \<and>
            snd W' = snd W @ [LLMCall (suggestions_system_prompt (language st))
                                (suggestions_user_prompt (language st) code) (Inr txt)])"
proof -
  obtain r1 W1 where c: "llm_complete env (suggestions_system_prompt (language st))
                           (suggestions_user_prompt (language st) code) W = (r1, W1)"
    by (cases "llm_complete env (suggestions_system_prompt (language st))
                 (suggestions_user_prompt (language st) code) W") auto
  note l = llm_complete_log [OF c]
  show ?thesis
  proof (cases r1)
    case (Inl e)
    with assms c have "res = Inl e" "W' = W1"
      by (simp_all add: generate_suggestions_def)
    with l Inl show ?thesis by simp
  next
    case (Inr t)
    with assms c have "res = Inr (stripped_lines t)" "W' = W1"
      by (simp_all add: generate_suggestions_def)
    with l Inr show ?thesis by simp
  qed
qed

text \<open>The calls of one run of \<open>_review_code\<close>: the outcomes of the calls made, in order.\<close>

lemma review_code_log:
  assumes "review_code env st path code W = (res, W')"
  shows "\<exists>new. snd W' = snd W @ new \<and> list_all is_llm_call new \<and>
           (\<exists>r more. new = LLMCall (review_system_prompt (language st))
                                (review_user_prompt (language st)
                                   (last (split_on (CHR ''/'') path)) code) r # more) \<and>
           (case res of
              Inl e \<Rightarrow> (\<exists>sys usr. LLMCall sys usr (Inl e) \<in> set new) \<and>
                       (\<forall>sys usr e'. LLMCall sys usr (Inl e') \<in> set new \<longrightarrow> e' = e)
            | Inr rv \<Rightarrow> length new = 3 \<and>
                (\<forall>c \<in> set new. \<exists>sys usr txt. c = LLMCall sys usr (Inr txt)))"
proof -
  let ?f = "last (split_on (CHR ''/'') path)"
  obtain r1 W1 where c1: "llm_complete env (review_system_prompt (language st))
                (review_user_prompt (language st) ?f code) W = (r1, W1)"
    by (cases "llm_complete env (review_system_prompt (language st))
                (review_user_prompt (language st) ?f code) W") auto
  note l1 = llm_complete_log [OF c1]
  show ?thesis
  proof (cases r1)
    case (Inl e)
    with assms c1 have "res = Inl e" "W' = W1"
      by (simp_all add: review_code_def)
    with l1 Inl show ?thesis by simp
  next
    case (Inr rv)
    obtain r2 W2 where c2: "check_best_practices env st code W1 = (r2, W2)"
      by (cases "check_best_practices env st code W1") auto
    note l2 = check_best_practices_log [OF c2]
    show ?thesis
    proof (cases r2)
      case (Inl e)
      with assms c1 c2 Inr have "res = Inl e" "W' = W2"
        by (simp_all add: review_code_def)
      with l1 l2 Inr Inl show ?thesis by auto
    next
      case violations: (Inr violations)
      obtain r3 W3 where c3: "generate_suggestions env st code W2 = (r3, W3)"
        by (cases "generate_suggestions env st code W2") auto
      note l3 = generate_suggestions_log [OF c3]
      show ?thesis
      proof (cases r3)
        case (Inl e)
        with assms c1 c2 c3 Inr violations have "res = Inl e" "W' = W3"
          by (simp_all add: review_code_def)
        with l1 l2 l3 Inr violations Inl show ?thesis by auto
      next
        case sugg: (Inr sugg)
        with assms c1 c2 c3 Inr violations have
          "res = Inr \<lparr>review_text = rv, best_practices_violations = violations,
                      suggestions = sugg\<rparr>" "W' = W3"
          by (simp_all add: review_code_def)
        with l1 l2 l3 Inr violations sugg show ?thesis by auto
      qed
    qed
  qed
qed

text \<open>
  The outcome of one run of \<open>_review_code\<close>: either all three calls returned, and the result is
  built from their texts, or the run stopped at the first call that raised.
\<close>

lemma review_code_result:
  assumes "review_code env st path code W = (res, W')"
  shows "(\<exists>t1 t2 t3.
            res = Inr \<lparr>review_text = t1, best_practices_violations = stripped_lines t2,
                       suggestions = stripped_lines t3\<rparr> \<and>
            snd W' = snd W @
              [LLMCall (review_system_prompt (language st))
                 (review_user_prompt (language st) (last (split_on (CHR ''/'') path)) code) (Inr t1),
               LLMCall (practices_system_prompt (language st))
                 (practices_user_prompt (language st) code) (Inr t2),
               LLMCall (suggestions_system_prompt (language st))
                 (suggestions_user_prompt (language st) code) (Inr t3)]) \<or>
         (\<exists>e. res = Inl e)"
proof -
  let ?f = "last (split_on (CHR ''/'') path)"
  obtain r1 W1 where c1: "llm_complete env (review_system_prompt (language st))
                (review_user_prompt (language st) ?f code) W = (r1, W1)"
    by (cases "llm_complete env (review_system_prompt (language st))
                (review_user_prompt (language st) ?f code) W") auto
  note l1 = llm_complete_log [OF c1]
  show ?thesis
  proof (cases r1)
    case (Inl e)
    with assms c1 have "res = Inl e" by (simp add: review_code_def)
    then show ?thesis by simp
  next
    case t1: (Inr t1)
    obtain r2 W2 where c2: "check_best_practices env st code W1 = (r2, W2)"
      by (cases "check_best_practices env st code W1") auto
    note l2 = check_best_practices_log [OF c2]
    show ?thesis
    proof (cases r2)
      case (Inl e)
      with assms c1 c2 t1 have "res = Inl e" by (simp add: review_code_def)
      then show ?thesis by simp
    next
      case v: (Inr v)
      with l2 obtain t2 where t2: "v = stripped_lines t2"
        "snd W2 = snd W1 @ [LLMCall (practices_system_prompt (language st))
                              (practices_user_prompt (language st) code) (Inr t2)]"
        by auto
      obtain r3 W3 where c3: "generate_suggestions env st code W2 = (r3, W3)"
        by (cases "generate_suggestions env st code W2") auto
      note l3 = generate_suggestions_log [OF c3]
      show ?thesis
      proof (cases r3)
        case (Inl e)
        with assms c1 c2 c3 t1 v have "res = Inl e" by (simp add: review_code_def)
        then show ?thesis by simp
      next
        case g: (Inr g)
        with l3 obtain t3 where t3: "g = stripped_lines t3"
          "snd W3 = snd W2 @ [LLMCall (suggestions_system_prompt (language st))
                                (suggestions_user_prompt (language st) code) (Inr t3)]"
          by auto
        from assms c1 c2 c3 t1 v g have
          "res = Inr \<lparr>review_text = t1, best_practices_violations = v, suggestions = g\<rparr>"
          "W' = W3"
          by (simp_all add: review_code_def)
        with l1 t1 t2 t3 have
          "res = Inr \<lparr>review_text = t1, best_practices_violations = stripped_lines t2,
                       suggestions = stripped_lines t3\<rparr> \<and>
            snd W' = snd W @
              [LLMCall (review_system_prompt (language st))
                 (review_user_prompt (language st) ?f code) (Inr t1),
               LLMCall (practices_system_prompt (language st))
                 (practices_user_prompt (language st) code) (Inr t2),
               LLMCall (suggestions_system_prompt (language st))
                 (suggestions_user_prompt (language st) code) (Inr t3)]"
          by simp
        then show ?thesis by blast
      qed
    qed
  qed
qed

lemma error_message_type: "mtype (error_message t src) = ERROR"
  by (simp add: error_message_def)

lemma error_message_text: "error_text (error_message t src) = t"
  by (simp add: error_message_def error_text_def empty_content_def)

text \<open>
  Claim C7. A ReviewRequest without the field \<open>file_path\<close> or without the field
  \<open>file_content\<close> is answered at once by the Error message
  \<open>Missing file path or content\<close>; the state of the Dispatcher, the world and the log of
  calls are unchanged, so the model client is not invoked.
\<close>

theorem dispatcher_missing_field_no_model_call:
  assumes "mtype m = REVIEW_REQUEST"
    and "file_path (content m) = None \<or> file_content (content m) = None"
  shows "LanguageExpert_process_message env st m W =
           (error_message ''Missing file path or content'' (agent_id st), st, W) \<and>
         mtype (fst (LanguageExpert_process_message env st m W)) = ERROR \<and>
         filter is_llm_call (snd (snd (snd (LanguageExpert_process_message env st m W)))) =
           filter is_llm_call (snd W)"
proof -
  from assms have
    "LanguageExpert_process_message env st m W =
       (error_message ''Missing file path or content'' (agent_id st), st, W)"
    by (auto simp: LanguageExpert_process_message_def split: option.splits)
  then show ?thesis by (simp add: error_message_type)
qed

theorem dispatcher_missing_field_no_model_call_witness:
  "LanguageExpert_process_message demo_env
     \<lparr>agent_id = ''language_expert_.py'', language = ''Python'', reviewed_files = [], reviews = []\<rparr>
     \<lparr>mtype = REVIEW_REQUEST,
      content = empty_content\<lparr>file_path := Some ''app.py'', pr_number := Some 42\<rparr>,
      source = ''orchestrator''\<rparr> ([], []) =
   (error_message ''Missing file path or content'' ''language_expert_.py'',
    \<lparr>agent_id = ''language_expert_.py'', language = ''Python'', reviewed_files = [], reviews = []\<rparr>,
    ([], []))"
proof -
  let ?st = "\<lparr>agent_id = ''language_expert_.py'', language = ''Python'',
               reviewed_files = [], reviews = []\<rparr>"
  let ?m = "\<lparr>mtype = REVIEW_REQUEST,
             content = empty_content\<lparr>file_path := Some ''app.py'', pr_number := Some 42\<rparr>,
             source = ''orchestrator''\<rparr>"
  have h1: "mtype ?m = REVIEW_REQUEST" by simp
  have h2: "file_path (content ?m) = None \<or> file_content (content ?m) = None"
    by (simp add: empty_content_def)
  from dispatcher_missing_field_no_model_call [OF h1 h2, of demo_env ?st "([], [])"]
  show ?thesis by simp
qed

text \<open>
  Claim C10. A ReviewRequest whose \<open>file_content\<close> is present but is the empty string gets
  the same Error message \<open>Missing file path or content\<close> as a request without the field,
  and the model client is not invoked: the log of calls and the world are unchanged.
\<close>

theorem dispatcher_empty_content_is_missing:
  assumes "mtype m = REVIEW_REQUEST"
    and "file_content (content m) = Some []"
  shows "LanguageExpert_process_message env st m W =
           (error_message ''Missing file path or content'' (agent_id st), st, W) \<and>
         LanguageExpert_process_message env st m W =
           LanguageExpert_process_message env st
             (m\<lparr>content := (content m)\<lparr>file_content := None\<rparr>\<rparr>) W \<and>
         filter is_llm_call (snd (snd (snd (LanguageExpert_process_message env st m W)))) =
           filter is_llm_call (snd W)"
proof -
  from assms have
    "LanguageExpert_process_message env st m W =
       (error_message ''Missing file path or content'' (agent_id st), st, W)"
    by (auto simp: LanguageExpert_process_message_def split: option.splits)
  moreover from assms have
    "LanguageExpert_process_message env st (m\<lparr>content := (content m)\<lparr>file_content := None\<rparr>\<rparr>) W =
       (error_message ''Missing file path or content'' (agent_id st), st, W)"
    by (auto simp: LanguageExpert_process_message_def split: option.splits)
  ultimately show ?thesis by simp
qed

theorem dispatcher_empty_content_is_missing_witness:
  "LanguageExpert_process_message demo_env
     \<lparr>agent_id = ''language_expert_.py'', language = ''Python'', reviewed_files = [], reviews = []\<rparr>
     (review_request ''pkg/__init__.py'' [] 42) ([], []) =
   (error_message ''Missing file path or content'' ''language_expert_.py'',
    \<lparr>agent_id = ''language_expert_.py'', language = ''Python'', reviewed_files = [], reviews = []\<rparr>,
    ([], []))"
proof -
  let ?st = "\<lparr>agent_id = ''language_expert_.py'', language = ''Python'',
               reviewed_files = [], reviews = []\<rparr>"
  let ?m = "review_request ''pkg/__init__.py'' [] 42"
  have h1: "mtype ?m = REVIEW_REQUEST" by (simp add: review_request_def)
  have h2: "file_content (content ?m) = Some []"
    by (simp add: review_request_def empty_content_def)
  from dispatcher_empty_content_is_missing [OF h1 h2, of demo_env ?st "([], [])"]
  show ?thesis by simp
qed

text \<open>
  Claim C8. The Dispatcher answers every message with one message, of kind Review or Error,
  and the calls it adds to the log are calls of the model client. Whenever one of these calls
  raised an exception, the answer is the Error message that carries the text of that
  exception; the answer is a Review only after three calls that all returned. On a
  ReviewRequest with a non-empty path and non-empty content there are two outcomes only:
  success, where the three prompts were answered and the answer is the Review message built
  from the three texts, with the file recorded in the state; or a call that raised, where the
  answer is the Error message for that exception and the state is unchanged.
\<close>

theorem dispatcher_returns_one_message:
  assumes "LanguageExpert_process_message env st m W = (r, st', W')"
  shows "\<exists>new. snd W' = snd W @ new \<and> list_all is_llm_call new \<and>
           (mtype r = REVIEW \<or> mtype r = ERROR) \<and>
           (\<forall>sys usr e. LLMCall sys usr (Inl e) \<in> set new \<longrightarrow>
                         r = error_message (exn_str e) (agent_id st)) \<and>
           (mtype r = REVIEW \<longrightarrow>
              length new = 3 \<and> (\<forall>c \<in> set new. \<exists>sys usr t. c = LLMCall sys usr (Inr t))) \<and>
           (\<forall>path code.
              mtype m = REVIEW_REQUEST \<and> file_path (content m) = Some path \<and> path \<noteq> [] \<and>
              file_content (content m) = Some code \<and> code \<noteq> [] \<longrightarrow>
              (\<exists>t1 t2 t3.
                 new =
                   [LLMCall (review_system_prompt (language st))
                      (review_user_prompt (language st) (last (split_on (CHR ''/'') path)) code)
                      (Inr t1),
                    LLMCall (practices_system_prompt (language st))
                      (practices_user_prompt (language st) code) (Inr t2),
                    LLMCall (suggestions_system_prompt (language st))
                      (suggestions_user_prompt (language st) code) (Inr t3)] \<and>
                 r = \<lparr>mtype = REVIEW,
                       content = empty_content
                         \<lparr>file_path := Some path,
                          review := Some \<lparr>review_text = t1,
                                          best_practices_violations = stripped_lines t2,
                                          suggestions = stripped_lines t3\<rparr>,
                          pr_number := pr_number (content m)\<rparr>,
                       source = agent_id st\<rparr> \<and>
                 st' = st\<lparr>reviewed_files := reviewed_files st @ [path],
                           reviews := dict_set (reviews st) path
                             \<lparr>review_text = t1,
                              best_practices_violations = stripped_lines t2,
                              suggestions = stripped_lines t3\<rparr>\<rparr>) \<or>
              (\<exists>sys usr e. LLMCall sys usr (Inl e) \<in> set new \<and>
                 r = error_message (exn_str e) (agent_id st) \<and> st' = st))"
proof -
  let ?ok = "\<lambda>path code new. \<exists>t1 t2 t3.
                 new =
                   [LLMCall (review_system_prompt (language st))
                      (review_user_prompt (language st) (last (split_on (CHR ''/'') path)) code)
                      (Inr t1),
                    LLMCall (practices_system_prompt (language st))
                      (practices_user_prompt (language st) code) (Inr t2),
                    LLMCall (suggestions_system_prompt (language st))
                      (suggestions_user_prompt (language st) code) (Inr t3)] \<and>
                 r = \<lparr>mtype = REVIEW,
                       content = empty_content
                         \<lparr>file_path := Some path,
                          review := Some \<lparr>review_text = t1,
                                          best_practices_violations = stripped_lines t2,
                                          suggestions = stripped_lines t3\<rparr>,
                          pr_number := pr_number (content m)\<rparr>,
                       source = agent_id st\<rparr> \<and>
                 st' = st\<lparr>reviewed_files := reviewed_files st @ [path],
                           reviews := dict_set (reviews st) path
                             \<lparr>review_text = t1,
                              best_practices_violations = stripped_lines t2,
                              suggestions = stripped_lines t3\<rparr>\<rparr>"
  let ?bad = "\<lambda>new. \<exists>sys usr e. LLMCall sys usr (Inl e) \<in> set new \<and>
                 r = error_message (exn_str e) (agent_id st) \<and> st' = st"
  let ?wf = "\<lambda>path code. mtype m = REVIEW_REQUEST \<and> file_path (content m) = Some path \<and>
               path \<noteq> [] \<and> file_content (content m) = Some code \<and> code \<noteq> []"
  show ?thesis
  proof (cases "mtype m = REVIEW_REQUEST \<and> \<not> falsy (file_path (content m)) \<and>
                \<not> falsy (file_content (content m))")
    case False
    then have "LanguageExpert_process_message env st m W =
                 (error_message ''Missing file path or content'' (agent_id st), st, W) \<or>
               LanguageExpert_process_message env st m W =
                 (error_message (''Unsupported message type: '' @ format_message_type (mtype m))
                    (agent_id st), st, W)"
      by (cases "file_path (content m)"; cases "file_content (content m)")
         (auto simp: LanguageExpert_process_message_def)
    with assms have eq: "W' = W" "mtype r = ERROR"
      by (auto simp: error_message_type)
    from eq(1) have c1: "snd W' = snd W @ []" by simp
    have c2: "list_all is_llm_call []" by simp
    from eq(2) have c3: "mtype r = REVIEW \<or> mtype r = ERROR" by simp
    have c4: "\<forall>sys usr e. LLMCall sys usr (Inl e) \<in> set [] \<longrightarrow>
                r = error_message (exn_str e) (agent_id st)"
      by simp
    from eq(2) have c5: "mtype r = REVIEW \<longrightarrow>
              length ([]::call list) = 3 \<and>
              (\<forall>c \<in> set []. \<exists>sys usr t. c = LLMCall sys usr (Inr t))"
      by simp
    have c6: "\<forall>path code. ?wf path code \<longrightarrow> ?ok path code [] \<or> ?bad []"
    proof (intro allI impI)
      fix path code
      assume "?wf path code"
      with False have False by simp
      then show "?ok path code [] \<or> ?bad []" ..
    qed
    show ?thesis
      by (rule exI [of _ "[]"]) (intro conjI c1 c2 c3 c4 c5 c6)
  next
    case True
    then obtain path code where pc: "file_path (content m) = Some path" "path \<noteq> []"
      "file_content (content m) = Some code" "code \<noteq> []"
      by (cases "file_path (content m)"; cases "file_content (content m)") auto
    obtain res W1 where rc: "review_code env st path code W = (res, W1)"
      by (cases "review_code env st path code W") auto
    from review_code_log [OF rc] obtain new where new:
      "snd W1 = snd W @ new" "list_all is_llm_call new"
      "case res of
         Inl e \<Rightarrow> (\<exists>sys usr. LLMCall sys usr (Inl e) \<in> set new) \<and>
                  (\<forall>sys usr e'. LLMCall sys usr (Inl e') \<in> set new \<longrightarrow> e' = e)
       | Inr rv \<Rightarrow> length new = 3 \<and> (\<forall>c \<in> set new. \<exists>sys usr t. c = LLMCall sys usr (Inr t))"
      by blast
    have main: "W' = W1 \<and> (mtype r = REVIEW \<or> mtype r = ERROR) \<and>
           (\<forall>sys usr e. LLMCall sys usr (Inl e) \<in> set new \<longrightarrow>
                         r = error_message (exn_str e) (agent_id st)) \<and>
           (mtype r = REVIEW \<longrightarrow>
              length new = 3 \<and> (\<forall>c \<in> set new. \<exists>sys usr t. c = LLMCall sys usr (Inr t))) \<and>
           (?ok path code new \<or> ?bad new)"
    proof (cases res)
      case (Inl e)
      with True pc rc have
        "LanguageExpert_process_message env st m W =
           (error_message (exn_str e) (agent_id st), st, W1)"
        by (simp add: LanguageExpert_process_message_def)
      with assms have r: "r = error_message (exn_str e) (agent_id st)" "W' = W1" "st' = st"
        by auto
      from new(3) Inl have one: "\<exists>sys usr. LLMCall sys usr (Inl e) \<in> set new"
        and all: "\<forall>sys usr e'. LLMCall sys usr (Inl e') \<in> set new \<longrightarrow> e' = e"
        by simp_all
      from one r(1,3) have "?bad new" by blast
      then have d5: "?ok path code new \<or> ?bad new" ..
      from all r(1) have d3:
        "\<forall>sys usr e. LLMCall sys usr (Inl e) \<in> set new \<longrightarrow>
                      r = error_message (exn_str e) (agent_id st)"
        by blast
      have err: "mtype r = ERROR" unfolding r(1) by (rule error_message_type)
      then have d2: "mtype r = REVIEW \<or> mtype r = ERROR" ..
      from err have d4: "mtype r = REVIEW \<longrightarrow>
              length new = 3 \<and> (\<forall>c \<in> set new. \<exists>sys usr t. c = LLMCall sys usr (Inr t))"
        by simp
      show ?thesis by (intro conjI r(2) d2 d3 d4 d5)
    next
      case (Inr rv)
      from review_code_result [OF rc] Inr obtain t1 t2 t3 where
        rv: "rv = \<lparr>review_text = t1, best_practices_violations = stripped_lines t2,
                    suggestions = stripped_lines t3\<rparr>"
        and log: "snd W1 = snd W @
                [LLMCall (review_system_prompt (language st))
                   (review_user_prompt (language st) (last (split_on (CHR ''/'') path)) code) (Inr t1),
                 LLMCall (practices_system_prompt (language st))
                   (practices_user_prompt (language st) code) (Inr t2),
                 LLMCall (suggestions_system_prompt (language st))
                   (suggestions_user_prompt (language st) code) (Inr t3)]"
        by auto
      from True pc rc Inr have
        "LanguageExpert_process_message env st m W =
           (\<lparr>mtype = REVIEW,
             content = empty_content
               \<lparr>file_path := Some path, review := Some rv, pr_number := pr_number (content m)\<rparr>,
             source = agent_id st\<rparr>,
            st\<lparr>reviewed_files := reviewed_files st @ [path],
               reviews := dict_set (reviews st) path rv\<rparr>,
            W1)"
        by (simp add: LanguageExpert_process_message_def)
      with assms have r: "r = \<lparr>mtype = REVIEW,
             content = empty_content
               \<lparr>file_path := Some path, review := Some rv, pr_number := pr_number (content m)\<rparr>,
             source = agent_id st\<rparr>"
        "st' = st\<lparr>reviewed_files := reviewed_files st @ [path],
               reviews := dict_set (reviews st) path rv\<rparr>" "W' = W1"
        by auto
      from new(1) log have n: "new =
                [LLMCall (review_system_prompt (language st))
                   (review_user_prompt (language st) (last (split_on (CHR ''/'') path)) code) (Inr t1),
                 LLMCall (practices_system_prompt (language st))
                   (practices_user_prompt (language st) code) (Inr t2),
                 LLMCall (suggestions_system_prompt (language st))
                   (suggestions_user_prompt (language st) code) (Inr t3)]"
        by simp
      from n r(1,2) have "?ok path code new" unfolding rv by (intro exI conjI)
      then have d5: "?ok path code new \<or> ?bad new" ..
      from new(3) Inr have three: "length new = 3 \<and>
        (\<forall>c \<in> set new. \<exists>sys usr t. c = LLMCall sys usr (Inr t))"
        by simp
      then have d4: "mtype r = REVIEW \<longrightarrow>
              length new = 3 \<and> (\<forall>c \<in> set new. \<exists>sys usr t. c = LLMCall sys usr (Inr t))" ..
      from three have "\<forall>sys usr e. LLMCall sys usr (Inl e) \<notin> set new"
        by fastforce
      then have d3: "\<forall>sys usr e. LLMCall sys usr (Inl e) \<in> set new \<longrightarrow>
                           r = error_message (exn_str e) (agent_id st)"
        by blast
      have "mtype r = REVIEW" unfolding r(1) by simp
      then have d2: "mtype r = REVIEW \<or> mtype r = ERROR" ..
      show ?thesis by (intro conjI r(3) d2 d3 d4 d5)
    qed
    then have W1: "W' = W1"
      and c3: "mtype r = REVIEW \<or> mtype r = ERROR"
      and c4: "\<forall>sys usr e. LLMCall sys usr (Inl e) \<in> set new \<longrightarrow>
                         r = error_message (exn_str e) (agent_id st)"
      and c5: "mtype r = REVIEW \<longrightarrow>
              length new = 3 \<and> (\<forall>c \<in> set new. \<exists>sys usr t. c = LLMCall sys usr (Inr t))"
      and d: "?ok path code new \<or> ?bad new"
      by blast+
    from new(1) W1 have c1: "snd W' = snd W @ new" by simp
    have c6: "\<forall>path' code'. ?wf path' code' \<longrightarrow> ?ok path' code' new \<or> ?bad new"
    proof (intro allI impI)
      fix path' code'
      assume "?wf path' code'"
      with pc have same: "path' = path" "code' = code" by simp_all
      from d show "?ok path' code' new \<or> ?bad new" unfolding same .
    qed
    show ?thesis
      by (rule exI [of _ new]) (intro conjI c1 new(2) c3 c4 c5 c6)
  qed
qed

theorem dispatcher_returns_one_message_witness:
  "LanguageExpert_process_message demo_env demo_expert
     (review_request ''src/app.py'' ''x = 1'' 42) ([], []) =
     (\<lparr>mtype = REVIEW,
       content = empty_content
         \<lparr>file_path := Some ''src/app.py'',
          review := Some \<lparr>review_text = ''fine'', best_practices_violations = [''fine''],
                          suggestions = [''fine'']\<rparr>,
          pr_number := Some 42\<rparr>,
       source = ''language_expert_.py''\<rparr>,
      demo_expert
        \<lparr>reviewed_files := [''src/app.py''],
         reviews := [(''src/app.py'',
                      \<lparr>review_text = ''fine'', best_practices_violations = [''fine''],
                        suggestions = [''fine'']\<rparr>)]\<rparr>,
      ([], [LLMCall (review_system_prompt ''Python'')
              (review_user_prompt ''Python'' ''app.py'' ''x = 1'') (Inr ''fine''),
            LLMCall (practices_system_prompt ''Python'')
              (practices_user_prompt ''Python'' ''x = 1'') (Inr ''fine''),
            LLMCall (suggestions_system_prompt ''Python'')
              (suggestions_user_prompt ''Python'' ''x = 1'') (Inr ''fine'')])) \<and>
   LanguageExpert_process_message failing_env demo_expert
     (review_request ''src/app.py'' ''x = 1'' 42) ([], []) =
     (error_message ''Connection error.'' ''language_expert_.py'', demo_expert,
      ([], [LLMCall (review_system_prompt ''Python'')
              (review_user_prompt ''Python'' ''app.py'' ''x = 1'')
              (Inl (Raised ''Connection error.''))])) \<and>
   error_message ''Connection error.'' ''language_expert_.py'' =
     error_message (exn_str (Raised ''Connection error.'')) (agent_id demo_expert)"
proof -
  let ?c = "LLMCall (review_system_prompt ''Python'')
              (review_user_prompt ''Python'' ''app.py'' ''x = 1'')
              (Inl (Raised ''Connection error.''))"
  have good: "LanguageExpert_process_message demo_env demo_expert
     (review_request ''src/app.py'' ''x = 1'' 42) ([], []) =
     (\<lparr>mtype = REVIEW,
       content = empty_content
         \<lparr>file_path := Some ''src/app.py'',
          review := Some \<lparr>review_text = ''fine'', best_practices_violations = [''fine''],
                          suggestions = [''fine'']\<rparr>,
          pr_number := Some 42\<rparr>,
       source = ''language_expert_.py''\<rparr>,
      demo_expert
        \<lparr>reviewed_files := [''src/app.py''],
         reviews := [(''src/app.py'',
                      \<lparr>review_text = ''fine'', best_practices_violations = [''fine''],
                        suggestions = [''fine'']\<rparr>)]\<rparr>,
      ([], [LLMCall (review_system_prompt ''Python'')
              (review_user_prompt ''Python'' ''app.py'' ''x = 1'') (Inr ''fine''),
            LLMCall (practices_system_prompt ''Python'')
              (practices_user_prompt ''Python'' ''x = 1'') (Inr ''fine''),
            LLMCall (suggestions_system_prompt ''Python'')
              (suggestions_user_prompt ''Python'' ''x = 1'') (Inr ''fine'')]))"
    by code_simp
  have seg: "last (split_on (CHR ''/'') ''src/app.py'') = ''app.py''"
    by simp
  have eq: "LanguageExpert_process_message failing_env demo_expert
              (review_request ''src/app.py'' ''x = 1'' 42) ([], []) =
            (error_message ''Connection error.'' ''language_expert_.py'', demo_expert,
             ([], [?c]))"
    by (simp add: LanguageExpert_process_message_def review_request_def empty_content_def
          review_code_def llm_complete_def failing_env_def demo_env_def demo_expert_def seg)
  from dispatcher_returns_one_message [OF eq] obtain new where
    new: "snd ([]::(int option \<times> string) list, [?c]) =
            snd ([]::(int option \<times> string) list, []::call list) @ new"
    and all: "\<forall>sys usr e. LLMCall sys usr (Inl e) \<in> set new \<longrightarrow>
                error_message ''Connection error.'' ''language_expert_.py'' =
                  error_message (exn_str e) (agent_id demo_expert)"
    by blast
  from new have "new = [?c]" by simp
  with all have
    "error_message ''Connection error.'' ''language_expert_.py'' =
       error_message (exn_str (Raised ''Connection error.'')) (agent_id demo_expert)"
    by simp
  with good eq show ?thesis by (intro conjI)
qed


lemma get_language_name_unmapped:
  "ext \<notin> fst ` set language_map \<Longrightarrow> get_language_name ext = ''Unknown''"
  by (simp add: get_language_name_def map_of_eq_None_iff [THEN iffD2])

lemma load_best_practices_Unknown: "load_best_practices ''Unknown'' = []"
  by (simp add: load_best_practices_def practices_def)

lemma LanguageExpert_init_language:
  "LanguageExpert_init env ext = Inr st \<Longrightarrow>
     language st = get_language_name ext \<and> agent_id st = ''language_expert_'' @ ext"
  by (auto simp: LanguageExpert_init_def Let_def split: if_splits)

text \<open>
  Claim C9. A Dispatcher constructed for an extension outside the lookup table has the
  language label \<open>Unknown\<close> and an empty checklist. On a ReviewRequest with a non-empty path
  and non-empty content it calls the model client, first with the review prompt for the
  language \<open>Unknown\<close>; its answer is a Review unless a call of the model client raised, in
  which case it is the Error message with the text of that exception. So it never fails
  because the language is unmapped.
\<close>

theorem unmapped_extension_is_reviewed:
  assumes "ext \<notin> fst ` set language_map"
    and "LanguageExpert_init env ext = Inr st"
    and "mtype m = REVIEW_REQUEST"
    and "file_path (content m) = Some path" and "path \<noteq> []"
    and "file_content (content m) = Some code" and "code \<noteq> []"
    and "LanguageExpert_process_message env st m W = (r, st', W')"
  shows "language st = ''Unknown'' \<and>
         load_best_practices (language st) = [] \<and>
         (\<exists>out more.
            snd W' = snd W @
              LLMCall (review_system_prompt ''Unknown'')
                (review_user_prompt ''Unknown'' (last (split_on (CHR ''/'') path)) code) out
              # more) \<and>
         (mtype r = REVIEW \<or>
          (\<exists>sys usr e. LLMCall sys usr (Inl e) \<in> set (drop (length (snd W)) (snd W')) \<and>
             r = error_message (exn_str e) (agent_id st)))"
proof -
  from LanguageExpert_init_language [OF assms(2)] get_language_name_unmapped [OF assms(1)]
  have lang: "language st = ''Unknown''" by simp
  obtain res W1 where rc: "review_code env st path code W = (res, W1)"
    by (cases "review_code env st path code W") auto
  from review_code_log [OF rc] obtain new where new_all:
    "snd W1 = snd W @ new \<and> list_all is_llm_call new \<and>
     (\<exists>out more. new = LLMCall (review_system_prompt (language st))
                        (review_user_prompt (language st) (last (split_on (CHR ''/'') path)) code)
                        out # more) \<and>
     (case res of
       Inl e \<Rightarrow> (\<exists>sys usr. LLMCall sys usr (Inl e) \<in> set new) \<and>
                (\<forall>sys usr e'. LLMCall sys usr (Inl e') \<in> set new \<longrightarrow> e' = e)
     | Inr rv \<Rightarrow> length new = 3 \<and> (\<forall>c \<in> set new. \<exists>sys usr t. c = LLMCall sys usr (Inr t)))" ..
  then have new1: "snd W1 = snd W @ new"
    and new2: "\<exists>out more. new = LLMCall (review_system_prompt (language st))
                        (review_user_prompt (language st) (last (split_on (CHR ''/'') path)) code)
                        out # more"
    and new3: "case res of
       Inl e \<Rightarrow> (\<exists>sys usr. LLMCall sys usr (Inl e) \<in> set new) \<and>
                (\<forall>sys usr e'. LLMCall sys usr (Inl e') \<in> set new \<longrightarrow> e' = e)
     | Inr rv \<Rightarrow> length new = 3 \<and> (\<forall>c \<in> set new. \<exists>sys usr t. c = LLMCall sys usr (Inr t))"
    by simp_all
  have both: "W' = W1 \<and> (mtype r = REVIEW \<or>
          (\<exists>sys usr e. LLMCall sys usr (Inl e) \<in> set new \<and>
             r = error_message (exn_str e) (agent_id st)))"
  proof (cases res)
    case (Inl e)
    with assms(3-7) rc have
      "LanguageExpert_process_message env st m W =
         (error_message (exn_str e) (agent_id st), st, W1)"
      by (simp add: LanguageExpert_process_message_def)
    with assms(8) have "r = error_message (exn_str e) (agent_id st)" "W' = W1" by auto
    moreover from new3 Inl have "\<exists>sys usr. LLMCall sys usr (Inl e) \<in> set new" by simp
    ultimately show ?thesis by blast
  next
    case (Inr rv)
    with assms(3-7) rc have
      "\<exists>msg st1. mtype msg = REVIEW \<and>
         LanguageExpert_process_message env st m W = (msg, st1, W1)"
      by (simp add: LanguageExpert_process_message_def)
    with assms(8) show ?thesis by auto
  qed
  then have W1: "W' = W1" and r: "mtype r = REVIEW \<or>
          (\<exists>sys usr e. LLMCall sys usr (Inl e) \<in> set new \<and>
             r = error_message (exn_str e) (agent_id st))"
    by simp_all
  from new1 W1 have d: "drop (length (snd W)) (snd W') = new" by simp
  from new2 obtain out more where
    "new = LLMCall (review_system_prompt (language st))
             (review_user_prompt (language st) (last (split_on (CHR ''/'') path)) code) out # more"
    by blast
  with new1 W1 lang have
    "snd W' = snd W @
       LLMCall (review_system_prompt ''Unknown'')
         (review_user_prompt ''Unknown'' (last (split_on (CHR ''/'') path)) code) out # more"
    by simp
  then have c3: "\<exists>out more. snd W' = snd W @
       LLMCall (review_system_prompt ''Unknown'')
         (review_user_prompt ''Unknown'' (last (split_on (CHR ''/'') path)) code) out # more"
    by blast
  have c2: "load_best_practices (language st) = []"
    unfolding lang by (rule load_best_practices_Unknown)
  from r have c4: "mtype r = REVIEW \<or>
          (\<exists>sys usr e. LLMCall sys usr (Inl e) \<in> set (drop (length (snd W)) (snd W')) \<and>
             r = error_message (exn_str e) (agent_id st))"
    unfolding d .
  from lang c2 c3 c4 show ?thesis by (intro conjI)
qed

theorem unmapped_extension_is_reviewed_witness:
  "''.kt'' \<notin> fst ` set language_map \<and>
   LanguageExpert_init demo_env ''.kt'' =
     Inr \<lparr>agent_id = ''language_expert_.kt'', language = ''Unknown'',
          reviewed_files = [], reviews = []\<rparr> \<and>
   (\<exists>out more.
      snd (snd (snd (LanguageExpert_process_message demo_env
        \<lparr>agent_id = ''language_expert_.kt'', language = ''Unknown'',
          reviewed_files = [], reviews = []\<rparr>
        (review_request ''app/Main.kt'' ''fun main() {}'' 42) ([], [])))) =
      LLMCall (review_system_prompt ''Unknown'')
        (review_user_prompt ''Unknown'' ''Main.kt'' ''fun main() {}'') out # more)"
proof -
  let ?st = "\<lparr>agent_id = ''language_expert_.kt'', language = ''Unknown'',
               reviewed_files = [], reviews = []\<rparr>"
  let ?m = "review_request ''app/Main.kt'' ''fun main() {}'' 42"
  let ?W = "([]::(int option \<times> string) list, []::call list)"
  have h1: "''.kt'' \<notin> fst ` set language_map"
    by (simp add: language_map_def)
  have lang: "get_language_name ''.kt'' = ''Unknown''"
    by (rule get_language_name_unmapped [OF h1])
  have h2: "LanguageExpert_init demo_env ''.kt'' = Inr ?st"
    by (simp add: LanguageExpert_init_def demo_env_def lang)
  have h3: "mtype ?m = REVIEW_REQUEST" by (simp add: review_request_def)
  have h4: "file_path (content ?m) = Some ''app/Main.kt''"
    by (simp add: review_request_def empty_content_def)
  have h5: "''app/Main.kt'' \<noteq> []" by simp
  have h6: "file_content (content ?m) = Some ''fun main() {}''"
    by (simp add: review_request_def empty_content_def)
  have h7: "''fun main() {}'' \<noteq> []" by simp
  have seg: "last (split_on (CHR ''/'') ''app/Main.kt'') = ''Main.kt''" by simp
  obtain r st' W' where h8: "LanguageExpert_process_message demo_env ?st ?m ?W = (r, st', W')"
    by (cases "LanguageExpert_process_message demo_env ?st ?m ?W") auto
  from unmapped_extension_is_reviewed [OF h1 h2 h3 h4 h5 h6 h7 h8]
  have "\<exists>out more.
            snd W' = snd ?W @
              LLMCall (review_system_prompt ''Unknown'')
                (review_user_prompt ''Unknown'' (last (split_on (CHR ''/'') ''app/Main.kt''))
                   ''fun main() {}'') out
              # more"
    by (elim conjE)
  then have "\<exists>out more.
      snd (snd (snd (LanguageExpert_process_message demo_env ?st ?m ?W))) =
      LLMCall (review_system_prompt ''Unknown'')
        (review_user_prompt ''Unknown'' ''Main.kt'' ''fun main() {}'') out # more"
    unfolding h8 seg by simp
  with h1 h2 show ?thesis by (intro conjI)
qed

section \<open>Properties of the Orchestrator\<close>

text \<open>What an invocation of the Dispatcher adds to the log: calls of the model client only.\<close>

lemma LanguageExpert_process_message_calls:
  assumes "LanguageExpert_process_message env st m W = (r, st', W')"
  shows "\<exists>new. snd W' = snd W @ new \<and> list_all is_llm_call new \<and> agent_id st' = agent_id st"
proof (cases "mtype m = REVIEW_REQUEST \<and> \<not> falsy (file_path (content m)) \<and>
              \<not> falsy (file_content (content m))")
  case False
  then have "LanguageExpert_process_message env st m W =
               (error_message ''Missing file path or content'' (agent_id st), st, W) \<or>
             LanguageExpert_process_message env st m W =
               (error_message (''Unsupported message type: '' @ format_message_type (mtype m))
                  (agent_id st), st, W)"
    by (cases "file_path (content m)"; cases "file_content (content m)")
       (auto simp: LanguageExpert_process_message_def)
  with assms have "W' = W" "st' = st" by auto
  then have "snd W' = snd W @ [] \<and> list_all is_llm_call [] \<and> agent_id st' = agent_id st"
    by simp
  then show ?thesis by (rule exI)
next
  case True
  then obtain path code where pc: "file_path (content m) = Some path" "path \<noteq> []"
    "file_content (content m) = Some code" "code \<noteq> []"
    by (cases "file_path (content m)"; cases "file_content (content m)") auto
  obtain res W1 where rc: "review_code env st path code W = (res, W1)"
    by (cases "review_code env st path code W") auto
  from review_code_log [OF rc] obtain new where new:
    "snd W1 = snd W @ new" "list_all is_llm_call new"
    by blast
  have "W' = W1 \<and> agent_id st' = agent_id st"
  proof (cases res)
    case (Inl e)
    with True pc rc have
      "LanguageExpert_process_message env st m W =
         (error_message (exn_str e) (agent_id st), st, W1)"
      by (simp add: LanguageExpert_process_message_def)
    with assms show ?thesis by auto
  next
    case (Inr rv)
    with True pc rc have
      "\<exists>msg st1. agent_id st1 = agent_id st \<and>
         LanguageExpert_process_message env st m W = (msg, st1, W1)"
      by (simp add: LanguageExpert_process_message_def)
    with assms show ?thesis by auto
  qed
  with new have "snd W' = snd W @ new \<and> list_all is_llm_call new \<and> agent_id st' = agent_id st"
    by simp
  then show ?thesis by (rule exI)
qed

lemma call_expert_log:
  assumes "call_expert env st m W = (r, st', W')"
  shows "\<exists>new. snd W' = snd W @ new @ [ExpertCall (agent_id st) m r] \<and>
           list_all is_llm_call new \<and> agent_id st' = agent_id st"
proof -
  obtain r0 st0 W0 where p: "LanguageExpert_process_message env st m W = (r0, st0, W0)"
    by (cases "LanguageExpert_process_message env st m W") auto
  with assms have eq: "r = r0" "st' = st0" "W' = (fst W0, snd W0 @ [ExpertCall (agent_id st) m r0])"
    by (auto simp: call_expert_def)
  from LanguageExpert_process_message_calls [OF p] obtain new where
    "snd W0 = snd W @ new" "list_all is_llm_call new" "agent_id st0 = agent_id st"
    by blast
  with eq have "snd W' = snd W @ new @ [ExpertCall (agent_id st) m r] \<and>
           list_all is_llm_call new \<and> agent_id st' = agent_id st"
    by simp
  then show ?thesis by (rule exI)
qed

lemma call_file_content_log:
  "call_file_content env repo n p W = (c, W') \<Longrightarrow> snd W' = snd W @ [GetContentCall repo n p c]"
  by (auto simp: call_file_content_def split: prod.splits)

lemma call_report_log:
  "call_report env m W = (r, W') \<Longrightarrow> snd W' = snd W @ [ReportCall m r]"
  by (auto simp: call_report_def split: prod.splits)

lemma call_get_pull_log:
  "call_get_pull env repo n W = (r, W') \<Longrightarrow> snd W' = snd W @ [GetPullCall repo n r]"
  by (auto simp: call_get_pull_def split: prod.splits)

lemma call_get_files_log:
  "call_get_files env repo n W = (r, W') \<Longrightarrow> snd W' = snd W @ [GetFilesCall repo n r]"
  by (auto simp: call_get_files_def split: prod.splits)

lemma llm_calls_no_expert:
  "list_all is_llm_call new \<Longrightarrow> ExpertCall a m r \<notin> set new"
  "list_all is_llm_call new \<Longrightarrow> ReportCall m r' \<notin> set new"
  "list_all is_llm_call new \<Longrightarrow> GetContentCall repo n p c \<notin> set new"
  by (induction new) auto

lemma sublist_in_context: "sublist xs ys \<Longrightarrow> sublist xs (ps @ ys @ ss)"
proof -
  assume "sublist xs ys"
  then obtain a b where "ys = a @ xs @ b" unfolding sublist_def by blast
  then have "ps @ ys @ ss = (ps @ a) @ xs @ (b @ ss)" by simp
  then show ?thesis unfolding sublist_def by blast
qed

lemma run_facts_events:
  assumes "run_facts env evs new"
  shows "run_facts env (pre @ evs @ post) new"
  unfolding run_facts_def
proof (intro allI impI)
  fix aid req resp
  assume "ExpertCall aid req resp \<in> set new"
  with assms obtain p where p: "file_path (content req) = Some p"
    "mtype resp = ERROR \<longrightarrow>
       sublist [''Analyzing '' @ p, ''Error analyzing '' @ p @ '': '' @ error_text resp] evs"
    "mtype resp = REVIEW \<longrightarrow>
       (\<exists>out. ReportCall resp out \<in> set new \<and>
          sublist ((''Analyzing '' @ p) # outcome_events env p out) evs)"
    unfolding run_facts_def by blast
  from p(2) have e: "mtype resp = ERROR \<longrightarrow>
       sublist [''Analyzing '' @ p, ''Error analyzing '' @ p @ '': '' @ error_text resp]
         (pre @ evs @ post)"
    by (blast intro: sublist_in_context)
  from p(3) have r: "mtype resp = REVIEW \<longrightarrow>
       (\<exists>out. ReportCall resp out \<in> set new \<and>
          sublist ((''Analyzing '' @ p) # outcome_events env p out) (pre @ evs @ post))"
    by (blast intro: sublist_in_context)
  from p(1) e r show "\<exists>p. file_path (content req) = Some p \<and>
       (mtype resp = ERROR \<longrightarrow>
          sublist [''Analyzing '' @ p, ''Error analyzing '' @ p @ '': '' @ error_text resp]
            (pre @ evs @ post)) \<and>
       (mtype resp = REVIEW \<longrightarrow>
          (\<exists>out. ReportCall resp out \<in> set new \<and>
             sublist ((''Analyzing '' @ p) # outcome_events env p out) (pre @ evs @ post)))"
    by blast
qed

lemma run_facts_calls:
  assumes "run_facts env evs new"
    and "\<forall>a m r. ExpertCall a m r \<notin> set n1" and "\<forall>a m r. ExpertCall a m r \<notin> set n2"
  shows "run_facts env evs (n1 @ new @ n2)"
  unfolding run_facts_def
proof (intro allI impI)
  fix aid req resp
  assume "ExpertCall aid req resp \<in> set (n1 @ new @ n2)"
  with assms(2,3) have "ExpertCall aid req resp \<in> set new" by auto
  with assms(1) obtain p where p: "file_path (content req) = Some p"
    "mtype resp = ERROR \<longrightarrow>
       sublist [''Analyzing '' @ p, ''Error analyzing '' @ p @ '': '' @ error_text resp] evs"
    "mtype resp = REVIEW \<longrightarrow>
       (\<exists>out. ReportCall resp out \<in> set new \<and>
          sublist ((''Analyzing '' @ p) # outcome_events env p out) evs)"
    unfolding run_facts_def by blast
  from p(3) have r: "mtype resp = REVIEW \<longrightarrow>
       (\<exists>out. ReportCall resp out \<in> set (n1 @ new @ n2) \<and>
          sublist ((''Analyzing '' @ p) # outcome_events env p out) evs)"
    by auto
  from p(1,2) r show "\<exists>p. file_path (content req) = Some p \<and>
       (mtype resp = ERROR \<longrightarrow>
          sublist [''Analyzing '' @ p, ''Error analyzing '' @ p @ '': '' @ error_text resp] evs) \<and>
       (mtype resp = REVIEW \<longrightarrow>
          (\<exists>out. ReportCall resp out \<in> set (n1 @ new @ n2) \<and>
             sublist ((''Analyzing '' @ p) # outcome_events env p out) evs))"
    by blast
qed

lemma run_facts_no_calls:
  assumes "\<forall>a m r. ExpertCall a m r \<notin> set new"
  shows "run_facts env evs new"
  using assms unfolding run_facts_def by blast

lemma run_facts_append:
  assumes "run_facts env e1 n1" and "run_facts env e2 n2"
  shows "run_facts env (e1 @ e2) (n1 @ n2)"
  unfolding run_facts_def
proof (intro allI impI)
  fix aid req resp
  assume "ExpertCall aid req resp \<in> set (n1 @ n2)"
  then consider "ExpertCall aid req resp \<in> set n1" | "ExpertCall aid req resp \<in> set n2"
    by auto
  then show "\<exists>p. file_path (content req) = Some p \<and>
       (mtype resp = ERROR \<longrightarrow>
          sublist [''Analyzing '' @ p, ''Error analyzing '' @ p @ '': '' @ error_text resp]
            (e1 @ e2)) \<and>
       (mtype resp = REVIEW \<longrightarrow>
          (\<exists>out. ReportCall resp out \<in> set (n1 @ n2) \<and>
             sublist ((''Analyzing '' @ p) # outcome_events env p out) (e1 @ e2)))"
  proof cases
    case 1
    from run_facts_events [OF assms(1), of "[]" e2] have "run_facts env (e1 @ e2) n1" by simp
    with 1 obtain p where p: "file_path (content req) = Some p"
      "mtype resp = ERROR \<longrightarrow>
         sublist [''Analyzing '' @ p, ''Error analyzing '' @ p @ '': '' @ error_text resp]
           (e1 @ e2)"
      "mtype resp = REVIEW \<longrightarrow>
         (\<exists>out. ReportCall resp out \<in> set n1 \<and>
            sublist ((''Analyzing '' @ p) # outcome_events env p out) (e1 @ e2))"
      unfolding run_facts_def by blast
    from p(3) have "mtype resp = REVIEW \<longrightarrow>
         (\<exists>out. ReportCall resp out \<in> set (n1 @ n2) \<and>
            sublist ((''Analyzing '' @ p) # outcome_events env p out) (e1 @ e2))"
      by auto
    with p(1,2) show ?thesis by blast
  next
    case 2
    from run_facts_events [OF assms(2), of e1 "[]"] have "run_facts env (e1 @ e2) n2" by simp
    with 2 obtain p where p: "file_path (content req) = Some p"
      "mtype resp = ERROR \<longrightarrow>
         sublist [''Analyzing '' @ p, ''Error analyzing '' @ p @ '': '' @ error_text resp]
           (e1 @ e2)"
      "mtype resp = REVIEW \<longrightarrow>
         (\<exists>out. ReportCall resp out \<in> set n2 \<and>
            sublist ((''Analyzing '' @ p) # outcome_events env p out) (e1 @ e2))"
      unfolding run_facts_def by blast
    from p(3) have "mtype resp = REVIEW \<longrightarrow>
         (\<exists>out. ReportCall resp out \<in> set (n1 @ n2) \<and>
            sublist ((''Analyzing '' @ p) # outcome_events env p out) (e1 @ e2))"
      by auto
    with p(1,2) show ?thesis by blast
  qed
qed

lemma file_handled_context:
  assumes "file_handled repo n aid f evs new"
  shows "file_handled repo n aid f (pre @ evs @ post) (n1 @ new @ n2)"
proof -
  from assms obtain c where c: "GetContentCall repo n f c \<in> set new"
    "\<not> falsy c \<longrightarrow> ''Analyzing '' @ f \<in> set evs \<and>
       (\<exists>r. ExpertCall aid (review_request f (the c) n) r \<in> set new)"
    unfolding file_handled_def by blast
  from c(1) have a: "GetContentCall repo n f c \<in> set (n1 @ new @ n2)" by simp
  from c(2) have b: "\<not> falsy c \<longrightarrow> ''Analyzing '' @ f \<in> set (pre @ evs @ post) \<and>
       (\<exists>r. ExpertCall aid (review_request f (the c) n) r \<in> set (n1 @ new @ n2))"
    by auto
  from a b show ?thesis unfolding file_handled_def by blast
qed

lemma groups_handled_context:
  assumes "groups_handled repo n groups evs new"
  shows "groups_handled repo n groups (pre @ evs @ post) (n1 @ new @ n2)"
  unfolding groups_handled_def
proof (intro ballI, clarify, intro conjI ballI)
  fix ext fs
  assume g: "(ext, fs) \<in> set groups"
  with assms have h: "group_header ext fs \<in> set evs"
    and fh: "\<forall>f \<in> set fs. file_handled repo n (''language_expert_'' @ ext) f evs new"
    unfolding groups_handled_def by blast+
  from h show "group_header ext fs \<in> set (pre @ evs @ post)" by simp
  fix f
  assume "f \<in> set fs"
  with fh have "file_handled repo n (''language_expert_'' @ ext) f evs new" by blast
  then show "file_handled repo n (''language_expert_'' @ ext) f (pre @ evs @ post) (n1 @ new @ n2)"
    by (rule file_handled_context)
qed

lemma review_request_path: "file_path (content (review_request p code n)) = Some p"
  by (simp add: review_request_def empty_content_def)

lemma process_file_facts:
  assumes "process_file env repo n st p W = (evs, st', W')"
  shows "\<exists>new. snd W' = snd W @ new \<and> agent_id st' = agent_id st \<and>
           run_facts env evs new \<and> file_handled repo n (agent_id st) p evs new"
proof -
  obtain c W1 where fc: "call_file_content env repo n p W = (c, W1)"
    by (cases "call_file_content env repo n p W") auto
  note l1 = call_file_content_log [OF fc]
  let ?g = "GetContentCall repo n p c"
  show ?thesis
  proof (cases "falsy c")
    case True
    with assms fc have eq: "evs = []" "st' = st" "W' = W1"
      by (simp_all add: process_file_def)
    have "run_facts env evs [?g]"
      by (rule run_facts_no_calls) simp
    moreover from True have "file_handled repo n (agent_id st) p evs [?g]"
      unfolding file_handled_def by auto
    ultimately have "snd W' = snd W @ [?g] \<and> agent_id st' = agent_id st \<and>
           run_facts env evs [?g] \<and> file_handled repo n (agent_id st) p evs [?g]"
      using l1 eq by simp
    then show ?thesis by (rule exI)
  next
    case False
    let ?req = "review_request p (the c) n"
    obtain resp st1 W2 where ce: "call_expert env st ?req W1 = (resp, st1, W2)"
      by (cases "call_expert env st ?req W1") auto
    from call_expert_log [OF ce] obtain llm where llm:
      "snd W2 = snd W1 @ llm @ [ExpertCall (agent_id st) ?req resp]"
      "list_all is_llm_call llm" "agent_id st1 = agent_id st"
      by blast
    let ?e = "ExpertCall (agent_id st) ?req resp"
    note no = llm_calls_no_expert [OF llm(2)]
    show ?thesis
    proof (cases "mtype resp = REVIEW")
      case True
      obtain out W3 where cr: "call_report env resp W2 = (out, W3)"
        by (cases "call_report env resp W2") auto
      note l3 = call_report_log [OF cr]
      let ?new = "?g # llm @ [?e, ReportCall resp out]"
      have evs: "evs = (''Analyzing '' @ p) # outcome_events env p out"
        and st: "st' = st1" and W: "W' = W3"
        using assms fc ce cr False True
        by (simp_all add: process_file_def outcome_events_def split: sum.splits)
      have log: "snd W' = snd W @ ?new"
        using l1 llm(1) l3 W by simp
      have rf: "run_facts env evs ?new"
        unfolding run_facts_def
      proof (intro allI impI)
        fix aid req r
        assume "ExpertCall aid req r \<in> set ?new"
        with no have e: "req = ?req" "r = resp" by auto
        have a: "file_path (content req) = Some p"
          unfolding e by (rule review_request_path)
        from True e have b: "mtype r = ERROR \<longrightarrow>
              sublist [''Analyzing '' @ p, ''Error analyzing '' @ p @ '': '' @ error_text r] evs"
          by simp
        have "ReportCall r out \<in> set ?new \<and>
                sublist ((''Analyzing '' @ p) # outcome_events env p out) evs"
          unfolding e evs by simp
        then have c: "mtype r = REVIEW \<longrightarrow>
              (\<exists>out. ReportCall r out \<in> set ?new \<and>
                 sublist ((''Analyzing '' @ p) # outcome_events env p out) evs)"
          by blast
        from a b c show "\<exists>q. file_path (content req) = Some q \<and>
              (mtype r = ERROR \<longrightarrow>
                 sublist [''Analyzing '' @ q, ''Error analyzing '' @ q @ '': '' @ error_text r] evs) \<and>
              (mtype r = REVIEW \<longrightarrow>
                 (\<exists>out. ReportCall r out \<in> set ?new \<and>
                    sublist ((''Analyzing '' @ q) # outcome_events env q out) evs))"
          by blast
      qed
      have "GetContentCall repo n p c \<in> set ?new \<and>
              (\<not> falsy c \<longrightarrow> ''Analyzing '' @ p \<in> set evs \<and>
                 (\<exists>r. ExpertCall (agent_id st) ?req r \<in> set ?new))"
        unfolding evs by auto
      then have fh: "file_handled repo n (agent_id st) p evs ?new"
        unfolding file_handled_def by (rule exI)
      from log rf fh st llm(3) have "snd W' = snd W @ ?new \<and> agent_id st' = agent_id st \<and>
           run_facts env evs ?new \<and> file_handled repo n (agent_id st) p evs ?new"
        by simp
      then show ?thesis by (rule exI)
    next
      case notrev: False
      let ?new = "?g # llm @ [?e]"
      have evs: "evs = (''Analyzing '' @ p) #
                   (if mtype resp = ERROR
                    then [''Error analyzing '' @ p @ '': '' @ error_text resp] else [])"
        and st: "st' = st1" and W: "W' = W2"
        using assms fc ce False notrev
        by (auto simp: process_file_def split: if_splits)
      have log: "snd W' = snd W @ ?new"
        using l1 llm(1) W by simp
      have rf: "run_facts env evs ?new"
        unfolding run_facts_def
      proof (intro allI impI)
        fix aid req r
        assume "ExpertCall aid req r \<in> set ?new"
        with no have e: "req = ?req" "r = resp" by auto
        have a: "file_path (content req) = Some p"
          unfolding e by (rule review_request_path)
        have b: "mtype r = ERROR \<longrightarrow>
              sublist [''Analyzing '' @ p, ''Error analyzing '' @ p @ '': '' @ error_text r] evs"
          unfolding e evs by simp
        from notrev e have c: "mtype r = REVIEW \<longrightarrow>
              (\<exists>out. ReportCall r out \<in> set ?new \<and>
                 sublist ((''Analyzing '' @ p) # outcome_events env p out) evs)"
          by simp
        from a b c show "\<exists>q. file_path (content req) = Some q \<and>
              (mtype r = ERROR \<longrightarrow>
                 sublist [''Analyzing '' @ q, ''Error analyzing '' @ q @ '': '' @ error_text r] evs) \<and>
              (mtype r = REVIEW \<longrightarrow>
                 (\<exists>out. ReportCall r out \<in> set ?new \<and>
                    sublist ((''Analyzing '' @ q) # outcome_events env q out) evs))"
          by blast
      qed
      have "GetContentCall repo n p c \<in> set ?new \<and>
              (\<not> falsy c \<longrightarrow> ''Analyzing '' @ p \<in> set evs \<and>
                 (\<exists>r. ExpertCall (agent_id st) ?req r \<in> set ?new))"
        unfolding evs by auto
      then have fh: "file_handled repo n (agent_id st) p evs ?new"
        unfolding file_handled_def by (rule exI)
      from log rf fh st llm(3) have "snd W' = snd W @ ?new \<and> agent_id st' = agent_id st \<and>
           run_facts env evs ?new \<and> file_handled repo n (agent_id st) p evs ?new"
        by simp
      then show ?thesis by (rule exI)
    qed
  qed
qed

lemma process_files_facts:
  "process_files env repo n st fs W = (evs, st', W') \<Longrightarrow>
     \<exists>new. snd W' = snd W @ new \<and> run_facts env evs new \<and>
       (\<forall>f \<in> set fs. file_handled repo n (agent_id st) f evs new)"
proof (induction fs arbitrary: st W evs st' W')
  case Nil
  then have "W' = W" "evs = []" by simp_all
  moreover have "run_facts env [] []" by (rule run_facts_no_calls) simp
  ultimately have "snd W' = snd W @ [] \<and> run_facts env evs [] \<and>
       (\<forall>f \<in> set []. file_handled repo n (agent_id st) f evs [])"
    by simp
  then show ?case by (rule exI)
next
  case (Cons p ps)
  obtain e1 st1 W1 where pf: "process_file env repo n st p W = (e1, st1, W1)"
    by (cases "process_file env repo n st p W") auto
  obtain e2 st2 W2 where ps: "process_files env repo n st1 ps W1 = (e2, st2, W2)"
    by (cases "process_files env repo n st1 ps W1") auto
  from Cons.prems pf ps have eq: "evs = e1 @ e2" "W' = W2" by simp_all
  from process_file_facts [OF pf] obtain n1 where n1:
    "snd W1 = snd W @ n1" "agent_id st1 = agent_id st" "run_facts env e1 n1"
    "file_handled repo n (agent_id st) p e1 n1"
    by blast
  from Cons.IH [OF ps] obtain n2 where n2:
    "snd W2 = snd W1 @ n2" "run_facts env e2 n2"
    "\<forall>f \<in> set ps. file_handled repo n (agent_id st1) f e2 n2"
    by blast
  from file_handled_context [OF n1(4), of "[]" e2 "[]" n2]
  have h1: "file_handled repo n (agent_id st) p (e1 @ e2) (n1 @ n2)" by simp
  have h2: "\<forall>f \<in> set ps. file_handled repo n (agent_id st) f (e1 @ e2) (n1 @ n2)"
  proof
    fix f
    assume "f \<in> set ps"
    with n2(3) n1(2) have "file_handled repo n (agent_id st) f e2 n2" by simp
    from file_handled_context [OF this, of e1 "[]" n1 "[]"]
    show "file_handled repo n (agent_id st) f (e1 @ e2) (n1 @ n2)" by simp
  qed
  from h1 h2 have "\<forall>f \<in> set (p # ps). file_handled repo n (agent_id st) f (e1 @ e2) (n1 @ n2)"
    by simp
  with run_facts_append [OF n1(3) n2(2)] n1(1) n2(1) eq
  have "snd W' = snd W @ (n1 @ n2) \<and> run_facts env evs (n1 @ n2) \<and>
          (\<forall>f \<in> set (p # ps). file_handled repo n (agent_id st) f evs (n1 @ n2))"
    by simp
  then show ?case by (rule exI)
qed

text \<open>
  With the API key set no constructor raises: the loop over the groups ends without an
  exception, and every group and every file of it was taken up.
\<close>

lemma handle_groups_facts:
  assumes "\<not> falsy (openai_api_key env)"
  shows "handle_groups env repo n groups W = (evs, x, W') \<Longrightarrow>
     x = None \<and>
     (\<exists>new. snd W' = snd W @ new \<and> run_facts env evs new \<and>
        groups_handled repo n groups evs new)"
proof (induction groups arbitrary: W evs x W')
  case Nil
  then have "W' = W" "evs = []" "x = None" by simp_all
  moreover have "run_facts env [] []" by (rule run_facts_no_calls) simp
  moreover have "groups_handled repo n [] [] []" by (simp add: groups_handled_def)
  ultimately have "snd W' = snd W @ [] \<and> run_facts env evs [] \<and>
          groups_handled repo n [] evs []"
    by simp
  then have "\<exists>new. snd W' = snd W @ new \<and> run_facts env evs new \<and>
          groups_handled repo n [] evs new"
    by (rule exI)
  with \<open>x = None\<close> show ?case by simp
next
  case (Cons g rest)
  obtain ext fs where g: "g = (ext, fs)" by (cases g) auto
  from assms obtain st where init: "LanguageExpert_init env ext = Inr st"
    by (simp add: LanguageExpert_init_def)
  from LanguageExpert_init_language [OF init] have aid: "agent_id st = ''language_expert_'' @ ext"
    by simp
  obtain e1 st1 W1 where ps: "process_files env repo n st fs W = (e1, st1, W1)"
    by (cases "process_files env repo n st fs W") auto
  obtain e2 x2 W2 where hg: "handle_groups env repo n rest W1 = (e2, x2, W2)"
    by (cases "handle_groups env repo n rest W1") auto
  from Cons.prems g init ps hg have eq:
    "evs = group_header ext fs # e1 @ e2" "x = x2" "W' = W2"
    by simp_all
  from process_files_facts [OF ps] aid obtain n1 where n1:
    "snd W1 = snd W @ n1" "run_facts env e1 n1"
    "\<forall>f \<in> set fs. file_handled repo n (''language_expert_'' @ ext) f e1 n1"
    by auto
  from Cons.IH [OF hg] obtain n2 where x2: "x2 = None" and n2:
    "snd W2 = snd W1 @ n2" "run_facts env e2 n2" "groups_handled repo n rest e2 n2"
    by blast
  from run_facts_append [OF n1(2) n2(2)]
  have "run_facts env ([group_header ext fs] @ (e1 @ e2) @ []) (n1 @ n2)"
    by (rule run_facts_events)
  then have rf: "run_facts env evs (n1 @ n2)" using eq by simp
  have first: "group_header ext fs \<in> set evs \<and>
      (\<forall>f \<in> set fs. file_handled repo n (''language_expert_'' @ ext) f evs (n1 @ n2))"
  proof (intro conjI ballI)
    show "group_header ext fs \<in> set evs" using eq by simp
    fix f
    assume "f \<in> set fs"
    with n1(3) have "file_handled repo n (''language_expert_'' @ ext) f e1 n1" by blast
    from file_handled_context [OF this, of "[group_header ext fs]" e2 "[]" n2] eq
    show "file_handled repo n (''language_expert_'' @ ext) f evs (n1 @ n2)" by simp
  qed
  from groups_handled_context [OF n2(3), of "group_header ext fs # e1" "[]" n1 "[]"] eq
  have others: "groups_handled repo n rest evs (n1 @ n2)" by simp
  from first others g have gh: "groups_handled repo n (g # rest) evs (n1 @ n2)"
    unfolding groups_handled_def by simp
  from rf gh n1(1) n2(1) eq
  have "snd W' = snd W @ (n1 @ n2) \<and> run_facts env evs (n1 @ n2) \<and>
          groups_handled repo n (g # rest) evs (n1 @ n2)"
    by simp
  then have "\<exists>new. snd W' = snd W @ new \<and> run_facts env evs new \<and>
          groups_handled repo n (g # rest) evs new"
    by (rule exI)
  with x2 eq show ?case by simp
qed

text \<open>Without the API key the first constructor raises before any call is made.\<close>

lemma handle_groups_no_key:
  assumes "falsy (openai_api_key env)"
    and "handle_groups env repo n groups W = (evs, x, W')"
  shows "W' = W"
proof (cases groups)
  case Nil
  with assms show ?thesis by simp
next
  case (Cons g rest)
  obtain ext fs where "g = (ext, fs)" by (cases g) auto
  with assms Cons show ?thesis
    by (simp add: LanguageExpert_init_def)
qed

lemma categorize_nonempty: "fs \<noteq> [] \<Longrightarrow> categorize [] fs \<noteq> []"
  using categorize_mset [of fs] by auto

lemma categorize_group_of:
  assumes "f \<in> set fs"
  shows "(get_file_extension f, filter (\<lambda>g. get_file_extension g = get_file_extension f) fs)
           \<in> set (categorize [] fs)"
proof -
  have "get_file_extension f \<in> set (map fst (categorize [] fs))"
    using assms by (simp add: categorize_keys first_seen_def)
  then obtain g where g: "(get_file_extension f, g) \<in> set (categorize [] fs)"
    by auto
  from categorize_groups [OF g] g show ?thesis by simp
qed

text \<open>
  A run in which a Dispatcher was invoked: the URL was parsed, the pull request and its files
  were fetched, the File Classifier found files to review, and the API key is set. Such a run
  raises no exception and ends with the completion event.
\<close>

lemma review_pr_dispatched:
  assumes run: "review_pr env url W = (evs, x, W')"
    and call: "ExpertCall aid req resp \<in> set (drop (length (snd W)) (snd W'))"
  shows "x = None \<and>
     (\<exists>repo n u fs evs3 new.
        snd W' = snd W @ GetPullCall repo n (Inr u) # GetFilesCall repo n (Inr fs) # new \<and>
        run_facts env evs3 new \<and>
        groups_handled repo n (categorize [] (filter is_relevant_file fs)) evs3 new \<and>
        evs = [''Initializing PR Review'', ''Extracting PR information'',
               ''Fetching PR from GitHub'', ''Fetching PR files'',
               ''Processing file analysis results''] @ evs3 @
              [''Review completed successfully''])"
proof (cases "extract_repo_name url")
  case (Inl e)
  with run have "W' = W" by (simp add: review_pr_def fail_def)
  with call show ?thesis by simp
next
  case repo: (Inr repo)
  show ?thesis
  proof (cases "extract_pr_number env url")
    case (Inl e)
    with run repo have "W' = W" by (simp add: review_pr_def fail_def)
    with call show ?thesis by simp
  next
    case n: (Inr n)
    obtain r1 W1 where gp: "call_get_pull env repo n W = (r1, W1)"
      by (cases "call_get_pull env repo n W") auto
    note l1 = call_get_pull_log [OF gp]
    show ?thesis
    proof (cases r1)
      case (Inl e)
      with run repo n gp have "W' = W1" by (simp add: review_pr_def fail_def)
      with call l1 show ?thesis by simp
    next
      case u: (Inr u)
      obtain r2 W2 where gf: "call_get_files env repo n W1 = (r2, W2)"
        by (cases "call_get_files env repo n W1") auto
      note l2 = call_get_files_log [OF gf]
      show ?thesis
      proof (cases r2)
        case (Inl e)
        with run repo n gp u gf have "W' = W2" by (simp add: review_pr_def fail_def)
        with call l1 l2 show ?thesis by simp
      next
        case fs: (Inr fs)
        let ?rel = "filter is_relevant_file fs"
        let ?d = "categorize [] ?rel"
        let ?fa = "\<lparr>mtype = FILE_ANALYSIS,
                    content = empty_content\<lparr>files_by_language := Some ?d, pr_number := Some n\<rparr>,
                    source = ''file_analyzer''\<rparr>"
        show ?thesis
        proof (cases "fs = [] \<or> ?rel = []")
          case True
          have "W' = W2"
          proof (cases "fs = []")
            case True
            with run repo n gp u gf fs show ?thesis
              by (simp add: review_pr_def)
          next
            case ne: False
            with True have
              "FileAnalyzer_process_message (file_analysis_request fs n) =
                 [error_message ''No relevant files found'' ''file_analyzer'']"
              by (simp add: FileAnalyzer_process_message_def file_analysis_request_def
                    empty_content_def)
            with run repo n gp u gf fs ne show ?thesis
              by (simp add: review_pr_def error_message_type)
          qed
          with call l1 l2 show ?thesis by simp
        next
          case False
          then have resp: "FileAnalyzer_process_message (file_analysis_request fs n) = [?fa]"
            by (simp add: FileAnalyzer_process_message_def file_analysis_request_def
                  empty_content_def)
          from False have d: "?d \<noteq> []" by (simp add: categorize_nonempty)
          obtain e3 x3 W3 where hg: "handle_groups env repo n ?d W2 = (e3, x3, W3)"
            by (cases "handle_groups env repo n ?d W2") auto
          with d have hfa: "handle_file_analysis env repo n ?fa W2 = (e3, x3, W3)"
            by (simp add: handle_file_analysis_def empty_content_def)
          have W3: "W' = W3"
            using run repo n gp u gf fs False resp hfa
            by (cases x3) (simp_all add: review_pr_def fail_def)
          show ?thesis
          proof (cases "falsy (openai_api_key env)")
            case True
            from handle_groups_no_key [OF True hg] W3 have "W' = W2" by simp
            with call l1 l2 show ?thesis by simp
          next
            case key: False
            from handle_groups_facts [OF key hg] obtain new where x3: "x3 = None"
              and new: "snd W3 = snd W2 @ new" "run_facts env e3 new"
                "groups_handled repo n ?d e3 new"
              by blast
            have res: "x = None"
              "evs = [''Initializing PR Review'', ''Extracting PR information'',
                      ''Fetching PR from GitHub'', ''Fetching PR files'',
                      ''Processing file analysis results''] @ e3 @
                     [''Review completed successfully'']"
              using run repo n gp u gf fs False resp hfa x3
              by (simp_all add: review_pr_def)
            from l1 l2 new(1) W3 u fs have
              "snd W' = snd W @ GetPullCall repo n (Inr u) # GetFilesCall repo n (Inr fs) # new"
              by simp
            with new(2,3) res(2) have
              "\<exists>repo n u fs evs3 new.
                 snd W' = snd W @ GetPullCall repo n (Inr u) # GetFilesCall repo n (Inr fs) # new \<and>
                 run_facts env evs3 new \<and>
        groups_handled repo n (categorize [] (filter is_relevant_file fs)) evs3 new \<and>
                 evs = [''Initializing PR Review'', ''Extracting PR information'',
                        ''Fetching PR from GitHub'', ''Fetching PR files'',
                        ''Processing file analysis results''] @ evs3 @
                       [''Review completed successfully'']"
              by blast
            with res(1) show ?thesis by simp
          qed
        qed
      qed
    qed
  qed
qed

text \<open>
  Claim C2. In every run in which a Dispatcher answered a request with an Error message, the
  Orchestrator emits the event \<open>Error analyzing <path>: <text>\<close> for the file of that
  request, directly after the event \<open>Analyzing <path>\<close>; the run raises no exception and ends
  with the completion event. The loops went on over all the files: for every file that the
  File Classifier kept, in whatever group and at whatever place, the header of its group was
  emitted and its content was requested from the source-control client; and if there is
  content, the file was announced and put to the Dispatcher of its extension, whose answer was
  handled in turn (an Error answer as an error event, a Review answer by handing it to the
  Report Aggregator).
\<close>

theorem dispatcher_error_does_not_abort_run:
  assumes "review_pr env url W = (evs, x, W')"
    and "ExpertCall aid req resp \<in> set (drop (length (snd W)) (snd W'))"
    and "mtype resp = ERROR"
  shows "x = None \<and> last evs = ''Review completed successfully'' \<and>
     (\<exists>p. file_path (content req) = Some p \<and>
          ''Error analyzing '' @ p @ '': '' @ error_text resp \<in> set evs \<and>
          sublist [''Analyzing '' @ p, ''Error analyzing '' @ p @ '': '' @ error_text resp] evs) \<and>
     (\<exists>repo n u fs new.
        snd W' = snd W @ GetPullCall repo n (Inr u) # GetFilesCall repo n (Inr fs) # new \<and>
        (\<forall>f \<in> set (filter is_relevant_file fs).
           group_header (get_file_extension f)
             (filter (\<lambda>g. get_file_extension g = get_file_extension f)
                (filter is_relevant_file fs)) \<in> set evs \<and>
           (\<exists>c. GetContentCall repo n f c \<in> set new \<and>
              (\<not> falsy c \<longrightarrow>
                 ''Analyzing '' @ f \<in> set evs \<and>
                 (\<exists>r. ExpertCall (''language_expert_'' @ get_file_extension f)
                        (review_request f (the c) n) r \<in> set new \<and>
                      (mtype r = ERROR \<longrightarrow>
                         ''Error analyzing '' @ f @ '': '' @ error_text r \<in> set evs) \<and>
                      (mtype r = REVIEW \<longrightarrow> (\<exists>out. ReportCall r out \<in> set new)))))))"
proof -
  from review_pr_dispatched [OF assms(1,2)] obtain repo n u fs evs3 new where
    x: "x = None"
    and log: "snd W' = snd W @ GetPullCall repo n (Inr u) # GetFilesCall repo n (Inr fs) # new"
    and rf: "run_facts env evs3 new"
    and gh: "groups_handled repo n (categorize [] (filter is_relevant_file fs)) evs3 new"
    and evs: "evs = [''Initializing PR Review'', ''Extracting PR information'',
               ''Fetching PR from GitHub'', ''Fetching PR files'',
               ''Processing file analysis results''] @ evs3 @
              [''Review completed successfully'']"
    by blast
  let ?rel = "filter is_relevant_file fs"
  have sub: "set evs3 \<subseteq> set evs" unfolding evs by auto
  have ctx: "\<And>xs. sublist xs evs3 \<Longrightarrow> sublist xs evs"
    unfolding evs by (rule sublist_in_context)
  from assms(2) log have "ExpertCall aid req resp \<in> set new" by simp
  with rf assms(3) obtain p where p: "file_path (content req) = Some p"
    "sublist [''Analyzing '' @ p, ''Error analyzing '' @ p @ '': '' @ error_text resp] evs3"
    unfolding run_facts_def by blast
  from ctx [OF p(2)] have s: "sublist [''Analyzing '' @ p,
      ''Error analyzing '' @ p @ '': '' @ error_text resp] evs" .
  from set_mono_sublist [OF s] have "''Error analyzing '' @ p @ '': '' @ error_text resp \<in> set evs"
    by simp
  with p(1) s have c3: "\<exists>p. file_path (content req) = Some p \<and>
          ''Error analyzing '' @ p @ '': '' @ error_text resp \<in> set evs \<and>
          sublist [''Analyzing '' @ p, ''Error analyzing '' @ p @ '': '' @ error_text resp] evs"
    by blast
  have per: "\<forall>f \<in> set ?rel.
           group_header (get_file_extension f)
             (filter (\<lambda>g. get_file_extension g = get_file_extension f) ?rel) \<in> set evs \<and>
           (\<exists>c. GetContentCall repo n f c \<in> set new \<and>
              (\<not> falsy c \<longrightarrow>
                 ''Analyzing '' @ f \<in> set evs \<and>
                 (\<exists>r. ExpertCall (''language_expert_'' @ get_file_extension f)
                        (review_request f (the c) n) r \<in> set new \<and>
                      (mtype r = ERROR \<longrightarrow>
                         ''Error analyzing '' @ f @ '': '' @ error_text r \<in> set evs) \<and>
                      (mtype r = REVIEW \<longrightarrow> (\<exists>out. ReportCall r out \<in> set new)))))"
  proof
    fix f
    assume f: "f \<in> set ?rel"
    let ?ext = "get_file_extension f"
    let ?g = "filter (\<lambda>g. get_file_extension g = ?ext) ?rel"
    from categorize_group_of [OF f] have grp: "(?ext, ?g) \<in> set (categorize [] ?rel)" .
    from f have fg: "f \<in> set ?g" by simp
    from gh grp have hd: "group_header ?ext ?g \<in> set evs3"
      and all: "\<forall>h \<in> set ?g. file_handled repo n (''language_expert_'' @ ?ext) h evs3 new"
      unfolding groups_handled_def by blast+
    from all fg have "file_handled repo n (''language_expert_'' @ ?ext) f evs3 new" by blast
    then obtain c where c: "GetContentCall repo n f c \<in> set new"
      "\<not> falsy c \<longrightarrow> ''Analyzing '' @ f \<in> set evs3 \<and>
         (\<exists>r. ExpertCall (''language_expert_'' @ ?ext) (review_request f (the c) n) r \<in> set new)"
      unfolding file_handled_def by blast
    have inner: "\<not> falsy c \<longrightarrow>
                 ''Analyzing '' @ f \<in> set evs \<and>
                 (\<exists>r. ExpertCall (''language_expert_'' @ ?ext)
                        (review_request f (the c) n) r \<in> set new \<and>
                      (mtype r = ERROR \<longrightarrow>
                         ''Error analyzing '' @ f @ '': '' @ error_text r \<in> set evs) \<and>
                      (mtype r = REVIEW \<longrightarrow> (\<exists>out. ReportCall r out \<in> set new)))"
    proof
      assume "\<not> falsy c"
      with c(2) obtain r where a: "''Analyzing '' @ f \<in> set evs3"
        and r: "ExpertCall (''language_expert_'' @ ?ext) (review_request f (the c) n) r \<in> set new"
        by blast
      from rf r obtain q where q: "file_path (content (review_request f (the c) n)) = Some q"
        "mtype r = ERROR \<longrightarrow>
           sublist [''Analyzing '' @ q, ''Error analyzing '' @ q @ '': '' @ error_text r] evs3"
        "mtype r = REVIEW \<longrightarrow>
           (\<exists>out. ReportCall r out \<in> set new \<and>
              sublist ((''Analyzing '' @ q) # outcome_events env q out) evs3)"
        unfolding run_facts_def by blast
      from q(1) have qf: "q = f" by (simp add: review_request_path)
      have e: "mtype r = ERROR \<longrightarrow>
                 ''Error analyzing '' @ f @ '': '' @ error_text r \<in> set evs"
      proof
        assume "mtype r = ERROR"
        with q(2) qf have "sublist [''Analyzing '' @ f,
            ''Error analyzing '' @ f @ '': '' @ error_text r] evs3"
          by simp
        from set_mono_sublist [OF ctx [OF this]]
        show "''Error analyzing '' @ f @ '': '' @ error_text r \<in> set evs" by simp
      qed
      from q(3) have v: "mtype r = REVIEW \<longrightarrow> (\<exists>out. ReportCall r out \<in> set new)"
        by blast
      from a sub have "''Analyzing '' @ f \<in> set evs" by blast
      with r e v show "''Analyzing '' @ f \<in> set evs \<and>
                 (\<exists>r. ExpertCall (''language_expert_'' @ ?ext)
                        (review_request f (the c) n) r \<in> set new \<and>
                      (mtype r = ERROR \<longrightarrow>
                         ''Error analyzing '' @ f @ '': '' @ error_text r \<in> set evs) \<and>
                      (mtype r = REVIEW \<longrightarrow> (\<exists>out. ReportCall r out \<in> set new)))"
        by blast
    qed
    from hd sub have "group_header ?ext ?g \<in> set evs" by blast
    with c(1) inner show "group_header ?ext ?g \<in> set evs \<and>
           (\<exists>c. GetContentCall repo n f c \<in> set new \<and>
              (\<not> falsy c \<longrightarrow>
                 ''Analyzing '' @ f \<in> set evs \<and>
                 (\<exists>r. ExpertCall (''language_expert_'' @ ?ext)
                        (review_request f (the c) n) r \<in> set new \<and>
                      (mtype r = ERROR \<longrightarrow>
                         ''Error analyzing '' @ f @ '': '' @ error_text r \<in> set evs) \<and>
                      (mtype r = REVIEW \<longrightarrow> (\<exists>out. ReportCall r out \<in> set new)))))"
      by blast
  qed
  with log have c4: "\<exists>repo n u fs new.
        snd W' = snd W @ GetPullCall repo n (Inr u) # GetFilesCall repo n (Inr fs) # new \<and>
        (\<forall>f \<in> set (filter is_relevant_file fs).
           group_header (get_file_extension f)
             (filter (\<lambda>g. get_file_extension g = get_file_extension f)
                (filter is_relevant_file fs)) \<in> set evs \<and>
           (\<exists>c. GetContentCall repo n f c \<in> set new \<and>
              (\<not> falsy c \<longrightarrow>
                 ''Analyzing '' @ f \<in> set evs \<and>
                 (\<exists>r. ExpertCall (''language_expert_'' @ get_file_extension f)
                        (review_request f (the c) n) r \<in> set new \<and>
                      (mtype r = ERROR \<longrightarrow>
                         ''Error analyzing '' @ f @ '': '' @ error_text r \<in> set evs) \<and>
                      (mtype r = REVIEW \<longrightarrow> (\<exists>out. ReportCall r out \<in> set new))))))"
    by blast
  from evs have c2: "last evs = ''Review completed successfully''" by simp
  from x c2 c3 c4 show ?thesis by (intro conjI)
qed

theorem dispatcher_error_does_not_abort_run_witness:
  "ExpertCall ''language_expert_.py'' (review_request ''a.py'' ''x = 1'' 42)
     (error_message ''Connection error.'' ''language_expert_.py'')
   \<in> set (drop (length (snd (([], [])::(int option \<times> string) list world)))
        (snd (snd (snd (review_pr mixed_env ''https://github.com/acme/widgets/pull/42''
           ([], [])))))) \<and>
   fst (review_pr mixed_env ''https://github.com/acme/widgets/pull/42'' ([], [])) =
     [''Initializing PR Review'', ''Extracting PR information'',
      ''Fetching PR from GitHub'', ''Fetching PR files'',
      ''Processing file analysis results'',
      ''Processing 2 .py files'',
      ''Analyzing a.py'', ''Error analyzing a.py: Connection error.'',
      ''Analyzing b.py'',
      ''{\"type\": \"review\", \"message\": \"b.py'' @ [CHR 0x5C] @ ''nfine'' @ [CHR 0x5C] @ ''n\"}'',
      ''Processing 1 .js files'',
      ''Analyzing c.js'',
      ''{\"type\": \"review\", \"message\": \"b.py'' @ [CHR 0x5C] @ ''nfine'' @ [CHR 0x5C] @
        ''nc.js'' @ [CHR 0x5C] @ ''nfine'' @ [CHR 0x5C] @ ''n\"}'',
      ''Review completed successfully''] \<and>
   fst (snd (review_pr mixed_env ''https://github.com/acme/widgets/pull/42'' ([], []))) = None \<and>
   sublist [''Analyzing a.py'', ''Error analyzing a.py: Connection error.'']
     (fst (review_pr mixed_env ''https://github.com/acme/widgets/pull/42'' ([], [])))"
proof -
  let ?W = "([], [])::(int option \<times> string) list world"
  let ?run = "review_pr mixed_env ''https://github.com/acme/widgets/pull/42'' ?W"
  let ?req = "review_request ''a.py'' ''x = 1'' 42"
  let ?resp = "error_message ''Connection error.'' ''language_expert_.py''"
  have call: "ExpertCall ''language_expert_.py'' ?req ?resp
                \<in> set (drop (length (snd ?W)) (snd (snd (snd ?run))))"
    by code_simp
  have events: "fst ?run =
     [''Initializing PR Review'', ''Extracting PR information'',
      ''Fetching PR from GitHub'', ''Fetching PR files'',
      ''Processing file analysis results'',
      ''Processing 2 .py files'',
      ''Analyzing a.py'', ''Error analyzing a.py: Connection error.'',
      ''Analyzing b.py'',
      ''{\"type\": \"review\", \"message\": \"b.py'' @ [CHR 0x5C] @ ''nfine'' @ [CHR 0x5C] @ ''n\"}'',
      ''Processing 1 .js files'',
      ''Analyzing c.js'',
      ''{\"type\": \"review\", \"message\": \"b.py'' @ [CHR 0x5C] @ ''nfine'' @ [CHR 0x5C] @
        ''nc.js'' @ [CHR 0x5C] @ ''nfine'' @ [CHR 0x5C] @ ''n\"}'',
      ''Review completed successfully'']"
    by code_simp
  have run: "?run = (fst ?run, fst (snd ?run), snd (snd ?run))" by simp
  have err: "mtype ?resp = ERROR" by (rule error_message_type)
  from dispatcher_error_does_not_abort_run [OF run call err]
  obtain p where x: "fst (snd ?run) = None"
    and p: "file_path (content ?req) = Some p"
      "sublist [''Analyzing '' @ p, ''Error analyzing '' @ p @ '': '' @ error_text ?resp]
         (fst ?run)"
    by blast
  from p(1) have "p = ''a.py''" by (simp add: review_request_path)
  with p(2) have "sublist [''Analyzing a.py'', ''Error analyzing a.py: Connection error.'']
      (fst ?run)"
    by (simp add: error_message_text)
  with call events x show ?thesis by (intro conjI)
qed






text \<open>A URL that fails to parse ends the run before any call: the world is unchanged.\<close>

lemma review_pr_parse_failure:
  assumes "extract_repo_name url = Inl e \<or>
           (\<exists>repo. extract_repo_name url = Inr repo) \<and> extract_pr_number env url = Inl e"
  shows "review_pr env url W =
           ([''Initializing PR Review'', ''Extracting PR information'',
             ''Error during PR review: '' @ exn_str e], Some e, W)"
  using assms by (auto simp: review_pr_def fail_def)

text \<open>A URL that parses is followed by the call that fetches the pull request.\<close>

lemma review_pr_reaches_get_pull:
  assumes repo: "extract_repo_name url = Inr repo"
    and n: "extract_pr_number env url = Inr n"
  shows "\<exists>out more. snd (snd (snd (review_pr env url W))) = snd W @ GetPullCall repo n out # more"
proof -
  obtain r1 W1 where gp: "call_get_pull env repo n W = (r1, W1)"
    by (cases "call_get_pull env repo n W") auto
  note l1 = call_get_pull_log [OF gp]
  have "\<exists>more. snd (snd (snd (review_pr env url W))) = snd W1 @ more"
  proof (cases r1)
    case (Inl e)
    with repo n gp have "snd (snd (review_pr env url W)) = W1"
      by (simp add: review_pr_def fail_def)
    then show ?thesis by simp
  next
    case u: (Inr u)
    obtain r2 W2 where gf: "call_get_files env repo n W1 = (r2, W2)"
      by (cases "call_get_files env repo n W1") auto
    note l2 = call_get_files_log [OF gf]
    have "\<exists>more. snd (snd (snd (review_pr env url W))) = snd W2 @ more"
    proof (cases r2)
      case (Inl e)
      with repo n gp u gf have "snd (snd (review_pr env url W)) = W2"
        by (simp add: review_pr_def fail_def)
      then show ?thesis by simp
    next
      case fs: (Inr fs)
      let ?rel = "filter is_relevant_file fs"
      let ?d = "categorize [] ?rel"
      let ?fa = "\<lparr>mtype = FILE_ANALYSIS,
                  content = empty_content\<lparr>files_by_language := Some ?d, pr_number := Some n\<rparr>,
                  source = ''file_analyzer''\<rparr>"
      show ?thesis
      proof (cases "fs = [] \<or> ?rel = []")
        case True
        have "snd (snd (review_pr env url W)) = W2"
        proof (cases "fs = []")
          case True
          with repo n gp u gf fs show ?thesis
            by (simp add: review_pr_def)
        next
          case ne: False
          with True have
            "FileAnalyzer_process_message (file_analysis_request fs n) =
               [error_message ''No relevant files found'' ''file_analyzer'']"
            by (simp add: FileAnalyzer_process_message_def file_analysis_request_def
                  empty_content_def)
          with repo n gp u gf fs ne show ?thesis
            by (simp add: review_pr_def error_message_type)
        qed
        then show ?thesis by simp
      next
        case False
        then have resp: "FileAnalyzer_process_message (file_analysis_request fs n) = [?fa]"
          by (simp add: FileAnalyzer_process_message_def file_analysis_request_def
                empty_content_def)
        from False have d: "?d \<noteq> []" by (simp add: categorize_nonempty)
        obtain e3 x3 W3 where hg: "handle_groups env repo n ?d W2 = (e3, x3, W3)"
          by (cases "handle_groups env repo n ?d W2") auto
        with d have hfa: "handle_file_analysis env repo n ?fa W2 = (e3, x3, W3)"
          by (simp add: handle_file_analysis_def empty_content_def)
        have W3: "snd (snd (review_pr env url W)) = W3"
          using repo n gp u gf fs False resp hfa
          by (cases x3) (simp_all add: review_pr_def fail_def)
        have "\<exists>more. snd W3 = snd W2 @ more"
        proof (cases "falsy (openai_api_key env)")
          case True
          from handle_groups_no_key [OF True hg] show ?thesis by simp
        next
          case False
          from handle_groups_facts [OF False hg] show ?thesis by blast
        qed
        with W3 show ?thesis by simp
      qed
    qed
    with l2 show ?thesis by auto
  qed
  with l1 show ?thesis by auto
qed

text \<open>
  Claim C4 fails on the code. The URL \<open>https://github.com/acme/widgets/issues/42\<close> is not
  of the shape \<open>github.com/<owner>/<repo>/pull/<number>\<close>, and \<open>extract_repo_info\<close> rejects
  it; \<open>review_pr\<close>, which splits the URL at the slashes instead, takes \<open>acme/widgets\<close> and 42
  from it and goes on to ask the source-control client for that pull request.
\<close>

theorem issues_url_reaches_source_control:
  "extract_repo_info ''https://github.com/acme/widgets/issues/42'' =
     Inl (ValueError ''Invalid GitHub PR URL'') \<and>
   extract_repo_name ''https://github.com/acme/widgets/issues/42'' = Inr ''acme/widgets'' \<and>
   extract_pr_number env ''https://github.com/acme/widgets/issues/42'' = Inr 42 \<and>
   (\<exists>out more.
      snd (snd (snd (review_pr env ''https://github.com/acme/widgets/issues/42'' W))) =
        snd W @ GetPullCall ''acme/widgets'' 42 out # more)"
proof -
  let ?url = "''https://github.com/acme/widgets/issues/42''"
  have a: "extract_repo_info ?url = Inl (ValueError ''Invalid GitHub PR URL'')"
    by code_simp
  have b: "extract_repo_name ?url = Inr ''acme/widgets''"
    by code_simp
  have seg: "last (split_on (CHR ''/'') ?url) = ''42''"
    by code_simp
  have c: "extract_pr_number env ?url = Inr 42"
    unfolding extract_pr_number_def seg
    by (simp add: py_int_def is_c_space_def is_digit_def max_str_digits_def
          int_of_digits_def digit_value_def)
  from review_pr_reaches_get_pull [OF b c]
  have d: "\<exists>out more.
      snd (snd (snd (review_pr env ?url W))) = snd W @ GetPullCall ''acme/widgets'' 42 out # more" .
  from a b c d show ?thesis by (intro conjI)
qed

text \<open>
  When no file of the request is relevant, the File Classifier answers with one Error message.
\<close>

lemma classifier_rejects_irrelevant_files:
  assumes "mtype m = FILE_ANALYSIS" and "files (content m) = Some fs"
    and "\<forall>f \<in> set fs. \<not> is_relevant_file f"
  shows "FileAnalyzer_process_message m =
           [error_message (if fs = [] then ''No files to analyze'' else ''No relevant files found'')
              ''file_analyzer'']"
proof -
  from assms(3) have "filter is_relevant_file fs = []"
    by (simp add: filter_empty_conv)
  with assms(1,2) show ?thesis
    by (simp add: FileAnalyzer_process_message_def)
qed

text \<open>
  Claim C1 fails on the code. The path \<open>src/app.min.js\<close> ends in \<open>.min.js\<close>, which is in the
  set of excluded extensions, but \<open>os.path.splitext\<close> yields the extension \<open>.js\<close>: the file is
  kept, the File Classifier answers with a FileAnalysis message, and the run invokes the
  Dispatcher for \<open>.js\<close>.
\<close>

theorem minified_file_is_kept:
  "''.min.js'' \<in> set excluded_extensions \<and>
   splitext ''src/app.min.js'' = (''src/app.min'', ''.js'') \<and>
   is_relevant_file ''src/app.min.js'' \<and>
   FileAnalyzer_process_message (file_analysis_request [''src/app.min.js''] 42) =
     [\<lparr>mtype = FILE_ANALYSIS,
       content = empty_content
         \<lparr>files_by_language := Some [(''.js'', [''src/app.min.js''])], pr_number := Some 42\<rparr>,
       source = ''file_analyzer''\<rparr>] \<and>
   fst (review_pr (demo_env\<lparr>get_files := (\<lambda>repo n w. (Inr [''src/app.min.js''], w))\<rparr>)
          ''https://github.com/acme/widgets/pull/42'' ([], [])) =
     [''Initializing PR Review'', ''Extracting PR information'',
      ''Fetching PR from GitHub'', ''Fetching PR files'',
      ''Processing file analysis results'', ''Processing 1 .js files'',
      ''Analyzing src/app.min.js'',
      review_event demo_env (''src/app.min.js'' @ nl @ ''fine'' @ nl),
      ''Review completed successfully'']"
  by code_simp

end
